theory Spec2Isabelle
  imports Main "HOL-Library.Word" "HOL-Library.Sublist" "HOL-Library.AList"
begin

unbundle bit_operations_syntax

section \<open>Buffers, strings and JavaScript values\<close>

text \<open>
  A Node \<open>Buffer\<close> is a list of bytes. JavaScript strings are modelled as \<open>string\<close>
  (code units below 256). The bitwise operators of JavaScript work on 32-bit integers,
  so the CRC register is a \<open>32 word\<close>; \<open>sint\<close> reads it back as the signed number
  JavaScript compares. Exceptions are values of \<open>jserror\<close>; a function that can throw
  returns the state it has reached together with the pending exception, since the
  mutations made before a throw persist.
\<close>

type_synonym byte = "8 word"
type_synonym buffer = "byte list"

datatype jserror = RangeError | TypeError | ReferenceError

datatype jsnum = NaN | Num int

definition nth_opt :: "'a list \<Rightarrow> nat \<Rightarrow> 'a option" where
  "nth_opt xs i = (if i < length xs then Some (xs ! i) else None)"

text \<open>\<open>Buffer.prototype.slice(start, end)\<close>: negative offsets count from the end, both
  offsets are clamped to the buffer, and an end before the start gives the empty buffer.\<close>

definition adjustOffset :: "int \<Rightarrow> nat \<Rightarrow> nat" where
  "adjustOffset offset len =
     (if offset = 0 then 0
      else if offset < 0 then (if 0 < offset + int len then nat (offset + int len) else 0)
      else if offset < int len then nat offset
      else len)"

definition slice :: "buffer \<Rightarrow> int \<Rightarrow> int \<Rightarrow> buffer" where
  "slice b start fin =
     (let s = adjustOffset start (length b);
          e = adjustOffset fin (length b)
      in if s < e then take (e - s) (drop s b) else [])"

definition slice_from :: "buffer \<Rightarrow> int \<Rightarrow> buffer" where
  "slice_from b start = drop (adjustOffset start (length b)) b"

definition readUInt8 :: "buffer \<Rightarrow> nat \<Rightarrow> jserror + nat" where
  "readUInt8 b off = (if off < length b then Inr (unat (b ! off)) else Inl RangeError)"

definition readUInt16BE :: "buffer \<Rightarrow> nat \<Rightarrow> jserror + nat" where
  "readUInt16BE b off =
     (if off + 1 < length b then Inr (unat (b ! off) * 256 + unat (b ! (off + 1)))
      else Inl RangeError)"

text \<open>\<open>Buffer.alloc(2).writeUInt16BE(value)\<close> on the signed 32-bit result of the bitwise
  operators: values outside 0..65535 raise.\<close>

definition writeUInt16BE :: "32 word \<Rightarrow> jserror + buffer" where
  "writeUInt16BE v =
     (if 0 \<le> sint v \<and> sint v \<le> 65535
      then Inr [ucast (drop_bit 8 v), ucast v]
      else Inl RangeError)"

definition hex_digit :: "nat \<Rightarrow> char" where
  "hex_digit n = ''0123456789abcdef'' ! n"

definition byte_hex :: "byte \<Rightarrow> string" where
  "byte_hex b = [hex_digit (unat b div 16), hex_digit (unat b mod 16)]"

definition toString_hex :: "buffer \<Rightarrow> string" where
  "toString_hex b = concat (map byte_hex b)"

text \<open>\<open>toUpperCase\<close> is only applied to hexadecimal output; the model maps a..z.\<close>

definition toUpperCase :: "string \<Rightarrow> string" where
  "toUpperCase s =
     map (\<lambda>c. let n = (of_char c :: nat) in if 97 \<le> n \<and> n \<le> 122 then char_of (n - 32) else c) s"

definition hex_val :: "char \<Rightarrow> nat option" where
  "hex_val c =
     (let n = (of_char c :: nat) in
      if 48 \<le> n \<and> n \<le> 57 then Some (n - 48)
      else if 97 \<le> n \<and> n \<le> 102 then Some (n - 87)
      else if 65 \<le> n \<and> n \<le> 70 then Some (n - 55)
      else None)"

text \<open>\<open>Buffer.from(s, 'hex')\<close> decodes pairs of digits and stops at the first pair that
  is not hexadecimal.\<close>

fun Buffer_from_hex :: "string \<Rightarrow> buffer" where
  "Buffer_from_hex (a # b # rest) =
     (case (hex_val a, hex_val b) of
        (Some x, Some y) \<Rightarrow> word_of_nat (16 * x + y) # Buffer_from_hex rest
      | _ \<Rightarrow> [])"
| "Buffer_from_hex _ = []"

text \<open>\<open>String.prototype.split\<close> with a one-character separator, \<open>trim\<close>,
  \<open>Array.prototype.indexOf\<close> and \<open>parseInt(s, 10)\<close> (exact below \<open>2 ^ 53\<close>).\<close>

fun split_on :: "char \<Rightarrow> string \<Rightarrow> string list" where
  "split_on sep [] = [[]]"
| "split_on sep (c # cs) =
     (if c = sep then [] # split_on sep cs
      else (case split_on sep cs of
              w # ws \<Rightarrow> (c # w) # ws
            | [] \<Rightarrow> [[c]]))"

definition is_ws :: "char \<Rightarrow> bool" where
  "is_ws c = ((of_char c :: nat) \<in> {9, 10, 11, 12, 13, 32, 160})"

definition trim :: "string \<Rightarrow> string" where
  "trim s = rev (dropWhile is_ws (rev (dropWhile is_ws s)))"

fun indexOf_from :: "int \<Rightarrow> 'a list \<Rightarrow> 'a \<Rightarrow> int" where
  "indexOf_from i [] x = -1"
| "indexOf_from i (y # ys) x = (if y = x then i else indexOf_from (i + 1) ys x)"

definition indexOf :: "'a list \<Rightarrow> 'a \<Rightarrow> int" where
  "indexOf xs x = indexOf_from 0 xs x"

definition is_digit :: "char \<Rightarrow> bool" where
  "is_digit c = (48 \<le> (of_char c :: nat) \<and> (of_char c :: nat) \<le> 57)"

definition digits_value :: "string \<Rightarrow> int" where
  "digits_value ds = foldl (\<lambda>acc c. 10 * acc + (int (of_char c) - 48)) 0 ds"

definition parseInt10 :: "string option \<Rightarrow> jsnum" where
  "parseInt10 v =
     (case v of
        None \<Rightarrow> NaN
      | Some s \<Rightarrow>
          (let t = dropWhile is_ws s;
               neg = (t \<noteq> [] \<and> hd t = CHR ''-'');
               u = (if t \<noteq> [] \<and> (hd t = CHR ''-'' \<or> hd t = CHR ''+'') then tl t else t);
               ds = takeWhile is_digit u
           in if ds = [] then NaN
              else Num (if neg then - digits_value ds else digits_value ds)))"

section \<open>Constants\<close>

definition MODE_AUTO :: string where "MODE_AUTO = ''auto''"
definition MODE_INVENTORY :: string where "MODE_INVENTORY = ''inventory''"
definition MODE_INTERACTIVE :: string where "MODE_INTERACTIVE = ''interactive''"
definition MODE_READ_TAG :: string where "MODE_READ_TAG = ''read-tag''"

definition HEADER_BYTE :: byte where "HEADER_BYTE = 0xFF"

definition CMD_START_APP :: byte where "CMD_START_APP = 0x04"
definition CMD_GET_RUNNING_STAGE :: byte where "CMD_GET_RUNNING_STAGE = 0x0C"
definition CMD_RFID_INVENTORY :: byte where "CMD_RFID_INVENTORY = 0x21"
definition CMD_MULTI_TAG_INVENTORY :: byte where "CMD_MULTI_TAG_INVENTORY = 0xAA"

definition STAGE_BOOTLOADER :: byte where "STAGE_BOOTLOADER = 0x11"
definition STAGE_APP :: byte where "STAGE_APP = 0x12"

definition STATUS_SUCCESS :: nat where "STATUS_SUCCESS = 0x0000"

definition HEX_START_APP :: string where
  "HEX_START_APP = ''ff00041d0b''"
definition HEX_GET_RUNNING_STAGE :: string where
  "HEX_GET_RUNNING_STAGE = ''ff000c1d03''"
definition HEX_SCAN_START :: string where
  "HEX_SCAN_START = ''ff13aa4d6f64756c6574656368aa480000000000f2bbe1cb''"
definition HEX_SCAN_STOP :: string where
  "HEX_SCAN_STOP = ''ff0eaa4d6f64756c6574656368aa49f3bb''"

definition HEX_APP_START_ACK :: string where
  "HEX_APP_START_ACK = ''ff1404000000000000a4000300202205232205230000000010377c''"

definition TSV_ITEM_ID_PLACEHOLDER :: string where
  "TSV_ITEM_ID_PLACEHOLDER = ''N/A''"

section \<open>CRC-16-CCITT\<close>

definition MSG_CRC_INIT :: "32 word" where "MSG_CRC_INIT = 0xFFFF"
definition MSG_CCITT_CRC_POLY :: "32 word" where "MSG_CCITT_CRC_POLY = 0x1021"

text \<open>The class \<open>CRC\<close>; its field \<open>value\<close> is \<open>val\<close> here.\<close>

record CRC =
  init_value :: "32 word"
  poly_value :: "32 word"
  val :: "32 word"

definition reset :: "CRC \<Rightarrow> CRC" where
  "reset c = c\<lparr>val := init_value c\<rparr>"

definition new_CRC :: "32 word \<Rightarrow> 32 word \<Rightarrow> CRC" where
  "new_CRC poly init = reset \<lparr>init_value = init, poly_value = poly, val = 0\<rparr>"

text \<open>The body of the \<open>for\<close> loop of \<open>crc8\<close>, for the current \<open>dcdBitMask\<close>.\<close>

definition crc8_body :: "byte \<Rightarrow> 32 word \<Rightarrow> CRC \<Rightarrow> CRC" where
  "crc8_body v dcdBitMask c =
     (let xorFlag = val c AND 0x8000;
          c1 = c\<lparr>val := push_bit 1 (val c) AND 0xFFFF\<rparr>;
          bit = (ucast v AND dcdBitMask = dcdBitMask);
          c2 = c1\<lparr>val := val c1 OR (if bit then 1 else 0)\<rparr>
      in if 0 < sint xorFlag then c2\<lparr>val := val c2 XOR poly_value c2\<rparr> else c2)"

function crc8_loop :: "nat \<Rightarrow> byte \<Rightarrow> 32 word \<Rightarrow> CRC \<Rightarrow> CRC" where
  "crc8_loop i v dcdBitMask c =
     (if i < 8
      then crc8_loop (i + 1) v (signed_drop_bit 1 dcdBitMask) (crc8_body v dcdBitMask c)
      else c)"
  by pat_completeness auto
termination
  by (relation "measure (\<lambda>(i, v, m, c). 8 - i)") auto

definition crc8 :: "CRC \<Rightarrow> byte \<Rightarrow> CRC" where
  "crc8 c v = crc8_loop 0 v 0x80 c"

definition calculate :: "CRC \<Rightarrow> buffer \<Rightarrow> CRC \<times> 32 word" where
  "calculate c data = (let c' = foldl crc8 (reset c) data in (c', val c'))"

subsection \<open>The reference definition, following the specification\<close>

text \<open>
  Register of 16 bits, initially \<open>0xFFFF\<close>. For each input byte and each of its bits from
  the most significant to the least significant: shift the register left by one
  (truncated to 16 bits), OR in the bit, and XOR with \<open>0x1021\<close> when the bit shifted out
  was set.
\<close>

definition crc_ref_bit :: "16 word \<Rightarrow> bool \<Rightarrow> 16 word" where
  "crc_ref_bit reg b =
     (let shifted = push_bit 1 reg OR (if b then 1 else 0)
      in if bit reg 15 then shifted XOR 0x1021 else shifted)"

definition bits_msb_first :: "byte \<Rightarrow> bool list" where
  "bits_msb_first v = map (\<lambda>k. bit v (7 - k)) [0..<8]"

definition crc16_ccitt_ref :: "buffer \<Rightarrow> 16 word" where
  "crc16_ccitt_ref bs = foldl crc_ref_bit 0xFFFF (concat (map bits_msb_first bs))"

section \<open>Global state\<close>

text \<open>
  A JavaScript \<open>Map\<close> is an association list in insertion order with distinct keys:
  \<open>set\<close> on a present key replaces the value in place, on a new key appends.
\<close>

definition Map_get :: "('k \<times> 'v) list \<Rightarrow> 'k \<Rightarrow> 'v option" where
  "Map_get m k = map_of m k"

definition Map_has :: "('k \<times> 'v) list \<Rightarrow> 'k \<Rightarrow> bool" where
  "Map_has m k = (map_of m k \<noteq> None)"

definition Map_set :: "('k \<times> 'v) list \<Rightarrow> 'k \<Rightarrow> 'v \<Rightarrow> ('k \<times> 'v) list" where
  "Map_set m k v = AList.update k v m"

record tag_entry =
  count :: nat
  timestamp :: string

record inv_item =
  item_id :: jsnum
  item_epc :: string
  item_name :: string

record update_rec =
  u_id :: jsnum
  u_timestamp :: string
  u_epc :: string
  u_item :: string
  u_count :: nat

text \<open>The JSON messages pushed to a WebSocket client: \<open>{epc}\<close> and \<open>{updates}\<close>.\<close>

datatype ws_msg = EpcMsg string | UpdatesMsg "update_rec list"

record client =
  cid :: nat
  readyState :: nat

text \<open>
  The variables of \<open>main\<close> that the protocol engine reads and writes, followed by the
  effects on the outside world: the buffers handed to \<open>port.write\<close>, the messages handed
  to \<open>client.send\<close> (with the client), the live \<open>setInterval\<close> handles, the number of
  pending \<open>setTimeout\<close> callbacks of \<open>startAutoMode\<close>, and how often the clock was read.
  \<open>packetBuffer\<close> is kept apart: only the data handler touches it.
\<close>

record state =
  autoModeState :: nat
  isScanning :: bool
  refreshIntervalId :: "nat option"
  scannedTagsCumulative :: "(string \<times> tag_entry) list"
  scannedTagsRefresh :: "(string \<times> tag_entry) list"
  inventoryData :: "(string \<times> inv_item) list"
  wsClients :: "client list"
  readTagScans :: "(string \<times> nat) list"
  mode :: string
  inventoryMode :: bool
  port_out :: "buffer list"
  ws_out :: "(nat \<times> ws_msg) list"
  intervals :: "nat list"
  timeouts :: nat
  next_handle :: nat
  date_reads :: nat

text \<open>\<open>wsClients.forEach(client => { if (client.readyState === 1) client.send(msg) })\<close>\<close>

definition send_all :: "state \<Rightarrow> ws_msg \<Rightarrow> state" where
  "send_all st msg =
     st\<lparr>ws_out := ws_out st @ map (\<lambda>c. (cid c, msg)) (filter (\<lambda>c. readyState c = 1) (wsClients st))\<rparr>"

definition clearInterval :: "state \<Rightarrow> nat \<Rightarrow> state" where
  "clearInterval st h = st\<lparr>intervals := removeAll h (intervals st)\<rparr>"

definition setInterval :: "state \<Rightarrow> state" where
  "setInterval st =
     st\<lparr>refreshIntervalId := Some (next_handle st),
        intervals := intervals st @ [next_handle st],
        next_handle := next_handle st + 1\<rparr>"

section \<open>Flush: logScannedTags\<close>

definition inventoryUpdates_of :: "state \<Rightarrow> update_rec list" where
  "inventoryUpdates_of st =
     concat (map (\<lambda>(epc, data).
        case Map_get (inventoryData st) epc of
          None \<Rightarrow> []
        | Some item \<Rightarrow>
            [\<lparr>u_id = item_id item, u_timestamp = timestamp data, u_epc = epc,
              u_item = item_name item, u_count = count data\<rparr>])
        (scannedTagsRefresh st))"

definition logScannedTags :: "state \<Rightarrow> state" where
  "logScannedTags st =
     (let inventoryUpdates = inventoryUpdates_of st;
          st1 = st\<lparr>scannedTagsRefresh := []\<rparr>
      in if 0 < length inventoryUpdates then send_all st1 (UpdatesMsg inventoryUpdates) else st1)"

section \<open>Sending a command: sendWithCrc\<close>

definition sendWithCrc :: "state \<Rightarrow> buffer \<Rightarrow> state \<times> jserror option" where
  "sendWithCrc st data =
     (let (crcCalculator, calculatedCrc) =
            calculate (new_CRC MSG_CCITT_CRC_POLY MSG_CRC_INIT) (slice_from data 1)
      in case writeUInt16BE calculatedCrc of
           Inl e \<Rightarrow> (st, Some e)
         | Inr crcBuffer \<Rightarrow>
             (let packetToSend = data @ crcBuffer;
                  st1 = st\<lparr>port_out := port_out st @ [packetToSend]\<rparr>;
                  hexString = toString_hex data
              in if prefix HEX_SCAN_START hexString then
                   (let st2 = st1\<lparr>isScanning := True, scannedTagsCumulative := [],
                                   scannedTagsRefresh := []\<rparr>;
                        st3 = (case refreshIntervalId st2 of
                                 Some h \<Rightarrow> clearInterval st2 h
                               | None \<Rightarrow> st2)
                    in (setInterval st3, None))
                 else if prefix HEX_SCAN_STOP hexString then
                   (if isScanning st1 then
                      (let st2 = st1\<lparr>isScanning := False\<rparr>;
                           st3 = (case refreshIntervalId st2 of
                                    Some h \<Rightarrow> clearInterval st2 h
                                  | None \<Rightarrow> st2)
                       in (logScannedTags st3, None))
                    else (st1, None))
                 else (st1, None)))"

section \<open>Handling one frame: parseResponse\<close>

definition auto_modes :: "string \<Rightarrow> bool" where
  "auto_modes m = (m = MODE_AUTO \<or> m = MODE_INVENTORY \<or> m = MODE_READ_TAG)"

text \<open>The loop over \<open>readTagScans.entries()\<close>, carrying \<open>(mostFrequentEpc, maxCount)\<close>.\<close>

definition mostFrequent :: "(string \<times> nat) list \<Rightarrow> string \<times> nat" where
  "mostFrequent scans =
     foldl (\<lambda>(mostFrequentEpc, maxCount) (epc, count).
              if maxCount < count then (epc, count) else (mostFrequentEpc, maxCount))
           ([], 0) scans"

definition bump_entry :: "(string \<times> tag_entry) list \<Rightarrow> string \<Rightarrow> string \<Rightarrow> (string \<times> tag_entry) list" where
  "bump_entry table epcHex now =
     (let entry = (case Map_get table epcHex of
                     Some e \<Rightarrow> e
                   | None \<Rightarrow> \<lparr>count = 0, timestamp = []\<rparr>)
      in Map_set table epcHex (entry\<lparr>count := count entry + 1, timestamp := now\<rparr>))"

text \<open>The identifier of a tag-read payload: five leading and two trailing bytes are cut
  off and the rest is rendered in upper-case hexadecimal.\<close>

definition epcHex_of :: "buffer \<Rightarrow> string" where
  "epcHex_of payload =
     (let epcData = slice payload 5 (int (length payload) - 2)
      in toUpperCase (toString_hex epcData))"

text \<open>The branch for \<open>mode === MODE_READ_TAG\<close>.\<close>

definition read_tag_observation :: "state \<Rightarrow> string \<Rightarrow> state" where
  "read_tag_observation st epcHex =
     (let currentCount = (case Map_get (readTagScans st) epcHex of
                            Some n \<Rightarrow> n
                          | None \<Rightarrow> 0) + 1;
          st1 = st\<lparr>readTagScans := Map_set (readTagScans st) epcHex currentCount\<rparr>;
          (mostFrequentEpc, maxCount) = mostFrequent (readTagScans st1)
      in send_all st1 (EpcMsg mostFrequentEpc))"

text \<open>The other modes: the inventory filter, then both counter tables. \<open>now n\<close> is the
  text of the \<open>n\<close>-th reading of the clock (\<open>new Date().toISOString()\<close>).\<close>

definition tag_observation :: "(nat \<Rightarrow> string) \<Rightarrow> state \<Rightarrow> string \<Rightarrow> state" where
  "tag_observation now st epcHex =
     (if inventoryMode st \<and> \<not> Map_has (inventoryData st) epcHex then st
      else
        (let st1 = st\<lparr>scannedTagsCumulative :=
                          bump_entry (scannedTagsCumulative st) epcHex (now (date_reads st)),
                        date_reads := date_reads st + 1\<rparr>;
             st2 = st1\<lparr>scannedTagsRefresh :=
                          bump_entry (scannedTagsRefresh st1) epcHex (now (date_reads st1)),
                        date_reads := date_reads st1 + 1\<rparr>
         in st2))"

text \<open>
  \<open>dbg\<close> is \<open>isDbgLogEnabled\<close>. With debugging on, the first log line calls
  \<open>match(...).join\<close> on the hexadecimal text, which is \<open>null\<close> for an empty buffer.
  \<open>readUInt16BE(3)\<close> raises on a buffer of fewer than five bytes.
\<close>

definition parseResponse :: "(nat \<Rightarrow> string) \<Rightarrow> bool \<Rightarrow> state \<Rightarrow> buffer \<Rightarrow> state \<times> jserror option" where
  "parseResponse now dbg st buffer =
     (if dbg \<and> buffer = [] then (st, Some TypeError)
      else if nth_opt buffer 0 \<noteq> Some HEADER_BYTE then (st, None)
      else
        (case readUInt16BE buffer 3 of
           Inl e \<Rightarrow> (st, Some e)
         | Inr statusCode \<Rightarrow>
            (let dataLength = unat (buffer ! 1);
                 commandCode = buffer ! 2;
                 payloadStartIndex = 5;
                 payloadEndIndex = payloadStartIndex + int dataLength;
                 payload = slice buffer payloadStartIndex payloadEndIndex
             in
             if commandCode = CMD_START_APP \<and> toString_hex buffer = HEX_APP_START_ACK then
               (if auto_modes (mode st)
                then sendWithCrc (st\<lparr>autoModeState := 2\<rparr>) (Buffer_from_hex HEX_SCAN_START)
                else (st, None))
             else if commandCode = CMD_GET_RUNNING_STAGE then
               (let runningStage = nth_opt payload 0 in
                if runningStage = Some STAGE_APP then
                  (if auto_modes (mode st) \<and> autoModeState st = 1
                   then sendWithCrc (st\<lparr>autoModeState := 2\<rparr>) (Buffer_from_hex HEX_SCAN_START)
                   else (st, None))
                else if runningStage = Some STAGE_BOOTLOADER then
                  (if auto_modes (mode st) \<and> autoModeState st = 1
                   then sendWithCrc (st\<lparr>autoModeState := 0\<rparr>) (Buffer_from_hex HEX_START_APP)
                   else (st, None))
                else (st, None))
             else if isScanning st
                     \<and> (commandCode = CMD_RFID_INVENTORY \<or> commandCode = CMD_MULTI_TAG_INVENTORY)
                     \<and> statusCode = STATUS_SUCCESS then
               (let epcHex = epcHex_of payload
                in if mode st = MODE_READ_TAG then (read_tag_observation st epcHex, None)
                   else (tag_observation now st epcHex, None))
             else (st, None))))"

section \<open>Handshake: startAutoMode and its timeout\<close>

definition startAutoMode :: "state \<Rightarrow> state \<times> jserror option" where
  "startAutoMode st =
     (case sendWithCrc st (Buffer_from_hex HEX_START_APP) of
        (st1, Some e) \<Rightarrow> (st1, Some e)
      | (st1, None) \<Rightarrow> (st1\<lparr>autoModeState := 1, timeouts := timeouts st1 + 1\<rparr>, None))"

text \<open>The callback given to \<open>setTimeout(..., 2000)\<close>, run when the timer fires.\<close>

definition startAutoMode_timeout :: "state \<Rightarrow> state \<times> jserror option" where
  "startAutoMode_timeout st =
     (let st1 = st\<lparr>timeouts := timeouts st - 1\<rparr>
      in if autoModeState st1 = 1
         then sendWithCrc st1 (Buffer_from_hex HEX_GET_RUNNING_STAGE)
         else (st1, None))"

section \<open>Frame reassembly: the handler of port data\<close>

text \<open>
  The \<open>while\<close> loop of the handler, for a frame handler \<open>h\<close> (in the program,
  \<open>parseResponse\<close>) working on a state \<open>s\<close>. The result is the new \<open>packetBuffer\<close>, the
  new state, and the exception that leaves the handler, if any. The \<open>catch\<close> block first
  logs, when debugging is on, the text of \<open>packet\<close>; \<open>packet\<close> is declared with \<open>const\<close>
  inside the \<open>try\<close> block and no variable of that name is in scope in the \<open>catch\<close> block,
  so evaluating it raises a \<open>ReferenceError\<close> before the buffer is reset.
\<close>

definition catch_block :: "bool \<Rightarrow> buffer \<Rightarrow> 's \<Rightarrow> buffer \<times> 's \<times> jserror option" where
  "catch_block dbg packetBuffer s =
     (if dbg then (packetBuffer, s, Some ReferenceError) else ([], s, None))"

function data_loop ::
  "('s \<Rightarrow> buffer \<Rightarrow> 's \<times> jserror option) \<Rightarrow> bool \<Rightarrow> buffer \<Rightarrow> 's \<Rightarrow> buffer \<times> 's \<times> jserror option" where
  "data_loop h dbg packetBuffer s =
     (if 5 \<le> length packetBuffer then
        (if packetBuffer ! 0 \<noteq> HEADER_BYTE then data_loop h dbg (slice_from packetBuffer 1) s
         else
           (case readUInt8 packetBuffer 1 of
              Inl e \<Rightarrow> catch_block dbg packetBuffer s
            | Inr dataLengthFromField \<Rightarrow>
               (let totalPacketLength = 1 + 1 + 1 + 2 + dataLengthFromField + 2 in
                if length packetBuffer < totalPacketLength then (packetBuffer, s, None)
                else
                  (let packet = slice packetBuffer 0 (int totalPacketLength) in
                   case h s packet of
                     (s', Some e) \<Rightarrow> catch_block dbg packetBuffer s'
                   | (s', None) \<Rightarrow>
                       data_loop h dbg (slice_from packetBuffer (int totalPacketLength)) s'))))
      else (packetBuffer, s, None))"
  by pat_completeness auto
termination
  by (relation "measure (\<lambda>(h, dbg, b, s). length b)")
     (auto simp add: slice_from_def adjustOffset_def)

declare data_loop.simps [simp del]

definition port_on_data ::
  "('s \<Rightarrow> buffer \<Rightarrow> 's \<times> jserror option) \<Rightarrow> bool \<Rightarrow> buffer \<times> 's \<Rightarrow> buffer \<Rightarrow> buffer \<times> 's \<times> jserror option" where
  "port_on_data h dbg bs data = data_loop h dbg (fst bs @ data) (snd bs)"

text \<open>Feeding chunks one after the other; an exception that leaves the handler ends the run.\<close>

fun feed :: "('s \<Rightarrow> buffer \<Rightarrow> 's \<times> jserror option) \<Rightarrow> bool \<Rightarrow> buffer \<times> 's \<Rightarrow> buffer list \<Rightarrow> buffer \<times> 's \<times> jserror option" where
  "feed h dbg bs [] = (fst bs, snd bs, None)"
| "feed h dbg bs (data # rest) =
     (case port_on_data h dbg bs data of
        (b', s', Some e) \<Rightarrow> (b', s', Some e)
      | (b', s', None) \<Rightarrow> feed h dbg (b', s') rest)"

text \<open>A frame handler that only records the frames it is given.\<close>

definition record_frame :: "buffer list \<Rightarrow> buffer \<Rightarrow> buffer list \<times> jserror option" where
  "record_frame frames packet = (frames @ [packet], None)"

section \<open>Inventory: parseInventoryData\<close>

fun inventory_rows ::
  "int \<Rightarrow> int \<Rightarrow> int \<Rightarrow> nat \<Rightarrow> string list \<Rightarrow> (string \<times> inv_item) list
   \<Rightarrow> (string \<times> inv_item) list \<times> jserror option" where
  "inventory_rows idIndex epcIndex itemIndex i [] table = (table, None)"
| "inventory_rows idIndex epcIndex itemIndex i (line # rest) table =
     (let values = split_on CHR '','' line;
          row_id = (if idIndex \<noteq> -1 then parseInt10 (nth_opt values (nat idIndex)) else Num (int i))
      in case nth_opt values (nat epcIndex) of
           None \<Rightarrow> (table, Some TypeError)
         | Some e \<Rightarrow>
            (let epc = trim e in
             case (if itemIndex \<noteq> -1 then map_option trim (nth_opt values (nat itemIndex))
                   else Some TSV_ITEM_ID_PLACEHOLDER) of
               None \<Rightarrow> (table, Some TypeError)
             | Some item \<Rightarrow>
                 inventory_rows idIndex epcIndex itemIndex (i + 1) rest
                   (if epc \<noteq> [] then Map_set table epc \<lparr>item_id = row_id, item_epc = epc, item_name = item\<rparr>
                    else table)))"

definition parseInventoryData :: "state \<Rightarrow> string \<Rightarrow> state \<times> jserror option" where
  "parseInventoryData st csvData =
     (let st0 = st\<lparr>inventoryData := []\<rparr>;
          lines = filter (\<lambda>line. trim line \<noteq> []) (split_on (CHR 0x0A) csvData)
      in if length lines = 0 then (st0, None)
         else
           (let headers = map trim (split_on CHR '','' (lines ! 0));
                idIndex = indexOf headers ''id'';
                epcIndex = indexOf headers ''EPC'';
                itemIndex = indexOf headers ''item''
            in if epcIndex = -1 then (st0, None)
               else
                 (case inventory_rows idIndex epcIndex itemIndex 1 (tl lines) [] of
                    (table, e) \<Rightarrow> (st0\<lparr>inventoryData := table\<rparr>, e))))"

section \<open>Notions used in the statements\<close>

text \<open>A command followed by the reference CRC of its bytes after the header, high byte
  first.\<close>

definition with_crc :: "buffer \<Rightarrow> buffer" where
  "with_crc data = data @ [ucast (drop_bit 8 (crc16_ccitt_ref (drop 1 data))),
                           ucast (crc16_ccitt_ref (drop 1 data))]"

text \<open>The values of the variables of \<open>main\<close> before any event, for a given mode.\<close>

definition initial_state :: "string \<Rightarrow> state" where
  "initial_state m =
     \<lparr>autoModeState = 0, isScanning = False, refreshIntervalId = None,
      scannedTagsCumulative = [], scannedTagsRefresh = [], inventoryData = [],
      wsClients = [], readTagScans = [], mode = m, inventoryMode = (m = MODE_INVENTORY),
      port_out = [], ws_out = [], intervals = [], timeouts = 0, next_handle = 0,
      date_reads = 0\<rparr>"

text \<open>A frame as the reassembler hands it over: header, and \<open>5 + length + 2\<close> bytes.\<close>

definition well_formed :: "buffer \<Rightarrow> bool" where
  "well_formed f = (2 \<le> length f \<and> f ! 0 = HEADER_BYTE \<and> length f = 5 + unat (f ! 1) + 2)"

definition payload_of :: "buffer \<Rightarrow> buffer" where
  "payload_of f = take (unat (f ! 1)) (drop 5 f)"

text \<open>A reply to the running-stage query that reports \<open>stage\<close>.\<close>

definition running_stage_reply :: "buffer \<Rightarrow> byte \<Rightarrow> bool" where
  "running_stage_reply f stage =
     (well_formed f \<and> f ! 2 = CMD_GET_RUNNING_STAGE \<and> 0 < unat (f ! 1) \<and> f ! 5 = stage)"

text \<open>A tag-read frame with the status code of success.\<close>

definition tag_read_frame :: "buffer \<Rightarrow> bool" where
  "tag_read_frame f =
     (well_formed f \<and> (f ! 2 = CMD_RFID_INVENTORY \<or> f ! 2 = CMD_MULTI_TAG_INVENTORY)
      \<and> f ! 3 = 0 \<and> f ! 4 = 0)"

text \<open>The state after the begin-scan command has been sent from \<open>st\<close>.\<close>

definition scan_started :: "state \<Rightarrow> state" where
  "scan_started st =
     setInterval
       (let st2 = st\<lparr>port_out := port_out st @ [with_crc (Buffer_from_hex HEX_SCAN_START)],
                      isScanning := True, scannedTagsCumulative := [], scannedTagsRefresh := []\<rparr>
        in case refreshIntervalId st2 of Some h \<Rightarrow> clearInterval st2 h | None \<Rightarrow> st2)"

text \<open>The clients whose connection is open.\<close>

definition open_clients :: "state \<Rightarrow> client list" where
  "open_clients st = filter (\<lambda>c. readyState c = 1) (wsClients st)"

text \<open>The count of an identifier in a counter table, 0 when absent.\<close>

definition count_in :: "(string \<times> tag_entry) list \<Rightarrow> string \<Rightarrow> nat" where
  "count_in table k = (case Map_get table k of Some e \<Rightarrow> count e | None \<Rightarrow> 0)"

text \<open>The non-blank lines of an inventory text and the trimmed cells of its first
  line, as \<open>parseInventoryData\<close> computes them.\<close>

definition csv_lines :: "string \<Rightarrow> string list" where
  "csv_lines csvData = filter (\<lambda>line. trim line \<noteq> []) (split_on (CHR 0x0A) csvData)"

definition csv_headers :: "string \<Rightarrow> string list" where
  "csv_headers csvData = map trim (split_on CHR '','' (csv_lines csvData ! 0))"

section \<open>Example inputs\<close>

definition ex_chunks :: "buffer list" where
  "ex_chunks = [[1, 0xFF, 0], [0, 0, 0, 0, 0, 0xFF], [2, 0, 0, 0, 9, 9, 0, 0, 7]]"


definition ex_clock :: "nat \<Rightarrow> string" where
  "ex_clock n = ''2025-01-01T00:00:00.000Z''"

definition ex_bootloader_reply :: buffer where
  "ex_bootloader_reply = [0xFF, 0x01, 0x0C, 0x00, 0x00, 0x11, 0x00, 0x00]"

definition ex_app_reply :: buffer where
  "ex_app_reply = [0xFF, 0x01, 0x0C, 0x00, 0x00, 0x12, 0x00, 0x00]"

definition ex_requested :: state where
  "ex_requested = fst (startAutoMode (initial_state MODE_AUTO))"

definition ex_tag_A :: buffer where
  "ex_tag_A = [0xFF, 0x08, 0x21, 0x00, 0x00, 1, 2, 3, 4, 5, 0xA1, 6, 7, 0x00, 0x00]"

definition ex_tag_B :: buffer where
  "ex_tag_B = [0xFF, 0x08, 0x21, 0x00, 0x00, 1, 2, 3, 4, 5, 0xB2, 6, 7, 0x00, 0x00]"

definition ex_read_tag_state :: state where
  "ex_read_tag_state =
     (initial_state MODE_READ_TAG)\<lparr>isScanning := True, wsClients := [\<lparr>cid = 0, readyState = 1\<rparr>]\<rparr>"

text \<open>The messages sent to clients so far, in order.\<close>

definition reports :: "state \<Rightarrow> ws_msg list" where
  "reports st = map snd (ws_out st)"

definition ex_flush_state :: state where
  "ex_flush_state =
     (initial_state MODE_AUTO)
       \<lparr>isScanning := True,
        scannedTagsCumulative := [(''A1'', \<lparr>count = 5, timestamp = ex_clock 0\<rparr>),
                                  (''ZZ'', \<lparr>count = 1, timestamp = ex_clock 0\<rparr>)],
        scannedTagsRefresh := [(''A1'', \<lparr>count = 2, timestamp = ex_clock 0\<rparr>),
                               (''ZZ'', \<lparr>count = 1, timestamp = ex_clock 0\<rparr>)],
        inventoryData := [(''A1'', \<lparr>item_id = Num 7, item_epc = ''A1'', item_name = ''hammer''\<rparr>)],
        wsClients := [\<lparr>cid = 0, readyState = 1\<rparr>, \<lparr>cid = 1, readyState = 3\<rparr>,
                      \<lparr>cid = 2, readyState = 1\<rparr>]\<rparr>"

definition ex_update_A1 :: update_rec where
  "ex_update_A1 = \<lparr>u_id = Num 7, u_timestamp = ex_clock 0, u_epc = ''A1'', u_item = ''hammer'',
                   u_count = 2\<rparr>"

definition ex_inventory_state :: state where
  "ex_inventory_state = ex_flush_state\<lparr>mode := MODE_INVENTORY, inventoryMode := True\<rparr>"

definition ex_short_tag :: buffer where
  "ex_short_tag = [0xFF, 0x03, 0x21, 0x00, 0x00, 1, 2, 3, 0x00, 0x00]"

definition ex_scanning_state :: state where
  "ex_scanning_state =
     (initial_state MODE_AUTO)\<lparr>isScanning := True, wsClients := [\<lparr>cid = 0, readyState = 1\<rparr>]\<rparr>"

definition ex_tag_A_other_crc :: buffer where
  "ex_tag_A_other_crc = [0xFF, 0x08, 0x21, 0x00, 0x00, 1, 2, 3, 4, 5, 0xA1, 6, 7, 0x12, 0x34]"

definition ex_ack :: buffer where
  "ex_ack = Buffer_from_hex HEX_APP_START_ACK"

definition ex_ack_other_crc :: buffer where
  "ex_ack_other_crc = take 25 ex_ack @ [0x00, 0x00]"

definition ex_csv_no_epc :: string where
  "ex_csv_no_epc = ''id,item'' @ [CHR 0x0A] @ ''1,hammer''"

definition ex_csv :: string where
  "ex_csv = ''id,EPC,item'' @ [CHR 0x0A] @ ''3, B2 ,saw'' @ [CHR 0x0A]"

section \<open>Slices\<close>

lemma adjustOffset_nat: "adjustOffset (int n) len = min n len"
  by (auto simp add: adjustOffset_def)

lemma slice_0_take: "slice b 0 (int n) = take n b"
proof -
  have s: "adjustOffset 0 (length b) = 0" by (simp add: adjustOffset_def)
  have e: "adjustOffset (int n) (length b) = min n (length b)" by (rule adjustOffset_nat)
  have "take (min n (length b)) b = take n b" by (simp add: min_def)
  then show ?thesis
    unfolding slice_def Let_def s e by (cases "min n (length b)") auto
qed

lemma slice_from_drop: "slice_from b (int n) = drop n b"
  by (simp add: slice_from_def adjustOffset_nat min_def)

lemma slice_from_1: "slice_from b 1 = drop 1 b"
  using slice_from_drop [of b 1] by simp

lemma slice_nat: "slice b (int i) (int j) = take (j - i) (drop i b)"
proof -
  have s: "adjustOffset (int i) (length b) = min i (length b)" by (rule adjustOffset_nat)
  have e: "adjustOffset (int j) (length b) = min j (length b)" by (rule adjustOffset_nat)
  show ?thesis
    unfolding slice_def Let_def s e
    by (auto simp add: min_def)
qed

lemma payload_slice: "slice f 5 (5 + int n) = take n (drop 5 f)"
  using slice_nat [of f 5 "5 + n"] by simp

lemma epc_slice: "slice p 5 (int (length p) - 2) = take (length p - 7) (drop 5 p)"
proof (cases "2 \<le> length p")
  case True
  then have i: "int (length p) - 2 = int (length p - 2)" by linarith
  have "slice p (int 5) (int (length p - 2)) = take (length p - 2 - 5) (drop 5 p)"
    by (rule slice_nat)
  then show ?thesis unfolding i by simp
next
  case False
  then have "adjustOffset (int (length p) - 2) (length p) = 0"
    by (auto simp add: adjustOffset_def)
  with False show ?thesis by (simp add: slice_def Let_def)
qed

section \<open>The CRC engine computes the reference CRC\<close>

lemma and_exp_ucast:
  "k < LENGTH('a) \<Longrightarrow> LENGTH('a) \<le> LENGTH('b) \<Longrightarrow>
   (ucast (v::'a::len word) :: 'b::len word) AND 2 ^ k = (if bit v k then 2 ^ k else 0)"
  by (rule bit_word_eqI) (auto simp add: bit_simps)

lemma mask_test: "k < 8 \<Longrightarrow> ((ucast (v::byte) :: 32 word) AND 2 ^ k = 2 ^ k) \<longleftrightarrow> bit v k"
  by (simp add: and_exp_ucast)

lemma and_8000: "((ucast (r::16 word) :: 32 word) AND 0x8000) = (if bit r 15 then 0x8000 else 0)"
  using and_exp_ucast [of 15 r, where 'b = 32] by simp

lemma xorflag_test: "0 < sint ((ucast (r::16 word) :: 32 word) AND 0x8000) \<longleftrightarrow> bit r 15"
  by (simp add: and_8000)

lemma shift_ucast_gen:
  "push_bit m (ucast (r::16 word) :: 32 word) AND mask 16 = ucast (push_bit m r)"
  by (rule bit_word_eqI) (auto simp add: bit_simps)

lemma shift_ucast: "push_bit 1 (ucast (r::16 word) :: 32 word) AND 0xFFFF = ucast (push_bit 1 r)"
  using shift_ucast_gen [of 1 r] by (simp add: mask_eq_exp_minus_1)

lemma ucast_or: "(ucast (a::16 word) :: 32 word) OR ucast b = ucast (a OR b)"
  by (rule bit_word_eqI) (auto simp add: bit_simps)

lemma ucast_xor: "(ucast (a::16 word) :: 32 word) XOR ucast b = ucast (a XOR b)"
  by (rule bit_word_eqI) (auto simp add: bit_simps)

lemma body_ref:
  assumes v: "val c = ucast r" and p: "poly_value c = 0x1021" and k: "k < 8"
  shows "val (crc8_body v (2 ^ k) c) = ucast (crc_ref_bit r (bit v k))"
proof -
  let ?b = "if bit v k then (1::16 word) else 0"
  have sh: "push_bit 1 (val c) AND 0xFFFF = ucast (push_bit 1 r)"
    unfolding v by (rule shift_ucast)
  have bitv: "(if ucast v AND (2 ^ k :: 32 word) = 2 ^ k then (1 :: 32 word) else 0) = ucast ?b"
    using k by (simp add: mask_test)
  have orr: "(ucast (push_bit 1 r) :: 32 word) OR ucast ?b = ucast (push_bit 1 r OR ?b)"
    by (rule ucast_or)
  have xr: "(ucast (push_bit 1 r OR ?b) :: 32 word) XOR 0x1021 = ucast ((push_bit 1 r OR ?b) XOR 0x1021)"
    using ucast_xor [of "push_bit 1 r OR ?b" "0x1021"] by simp
  have flag: "(0 < sint (val c AND 0x8000)) = bit r 15"
    unfolding v by (rule xorflag_test)
  have "val (crc8_body v (2 ^ k) c) =
        (if bit r 15 then (ucast (push_bit 1 r) OR ucast ?b) XOR 0x1021
         else ucast (push_bit 1 r) OR ucast ?b)"
    unfolding crc8_body_def Let_def flag sh bitv by (simp add: p)
  also have "\<dots> = ucast (crc_ref_bit r (bit v k))"
    unfolding crc_ref_bit_def Let_def orr xr by simp
  finally show ?thesis .
qed

lemma body_poly: "poly_value (crc8_body v m c) = poly_value c"
  by (simp add: crc8_body_def Let_def)

lemma crc8_unroll:
  "crc8 c v = crc8_body v (2 ^ 0) (crc8_body v (2 ^ 1) (crc8_body v (2 ^ 2) (crc8_body v (2 ^ 3)
     (crc8_body v (2 ^ 4) (crc8_body v (2 ^ 5) (crc8_body v (2 ^ 6) (crc8_body v (2 ^ 7) c)))))))"
  by (simp add: crc8_def)

lemma bits_unroll:
  "foldl crc_ref_bit r (bits_msb_first v) =
     crc_ref_bit (crc_ref_bit (crc_ref_bit (crc_ref_bit (crc_ref_bit (crc_ref_bit (crc_ref_bit
       (crc_ref_bit r (bit v 7)) (bit v 6)) (bit v 5)) (bit v 4)) (bit v 3)) (bit v 2)) (bit v 1)) (bit v 0)"
  by (simp add: bits_msb_first_def upt_rec)

lemma crc8_ref:
  assumes v: "val c = ucast r" and p: "poly_value c = 0x1021"
  shows "val (crc8 c v) = ucast (foldl crc_ref_bit r (bits_msb_first v))
       \<and> poly_value (crc8 c v) = 0x1021"
proof -
  note b = body_ref body_poly
  show ?thesis
    unfolding crc8_unroll bits_unroll
    by (intro conjI b v, simp_all only: body_poly p)
qed


lemma foldl_crc8_ref:
  assumes "val c = ucast r" and "poly_value c = 0x1021"
  shows "val (foldl crc8 c data) = ucast (foldl crc_ref_bit r (concat (map bits_msb_first data)))"
  using assms
proof (induction data arbitrary: c r)
  case Nil
  then show ?case by simp
next
  case (Cons v data)
  from crc8_ref [OF Cons.prems]
  have "val (crc8 c v) = ucast (foldl crc_ref_bit r (bits_msb_first v))"
    and "poly_value (crc8 c v) = 0x1021" by simp_all
  from Cons.IH [OF this] show ?case by simp
qed

lemma calculate_ref:
  "snd (calculate (new_CRC MSG_CCITT_CRC_POLY MSG_CRC_INIT) data) = ucast (crc16_ccitt_ref data)"
proof -
  let ?c = "reset (new_CRC MSG_CCITT_CRC_POLY MSG_CRC_INIT)"
  have "val ?c = ucast (0xFFFF :: 16 word)" "poly_value ?c = 0x1021"
    by (simp_all add: reset_def new_CRC_def MSG_CRC_INIT_def MSG_CCITT_CRC_POLY_def)
  from foldl_crc8_ref [OF this] show ?thesis
    by (simp add: calculate_def Let_def crc16_ccitt_ref_def)
qed


lemma sint_ucast16: "sint (ucast (r :: 16 word) :: 32 word) = uint r"
proof -
  have u: "uint (ucast r :: 32 word) = uint r"
    by (rule uint_up_ucast) (simp add: is_up)
  have b: "uint r < 65536" using uint_bounded [of r] by simp
  have "sint (ucast r :: 32 word) = signed_take_bit 31 (uint r)"
    by (simp add: sint_uint u)
  also have "\<dots> = uint r"
  proof (rule signed_take_bit_int_eq_self)
    show "- (2 ^ 31) \<le> uint r" by (rule order_trans [of _ 0]) simp_all
    show "uint r < 2 ^ 31" by (rule less_trans [OF b]) simp
  qed
  finally show ?thesis .
qed

lemma drop8: "(ucast (drop_bit 8 (ucast (r::16 word) :: 32 word)) :: byte) = ucast (drop_bit 8 r)"
  by (rule bit_word_eqI) (auto simp add: bit_simps)

lemma low8: "(ucast (ucast (r::16 word) :: 32 word) :: byte) = ucast r"
  by (rule bit_word_eqI) (auto simp add: bit_simps)


lemma writeUInt16BE_ucast:
  "writeUInt16BE (ucast (r :: 16 word)) = Inr [ucast (drop_bit 8 r), ucast r]"
proof -
  have "uint r < 2 ^ 16" "0 \<le> uint r" using uint_bounded [of r] by simp_all
  then show ?thesis
    by (simp add: writeUInt16BE_def sint_ucast16 drop8 low8)
qed

lemma port_out_send_all: "port_out (send_all st m) = port_out st"
  by (simp add: send_all_def)

lemma port_out_logScannedTags: "port_out (logScannedTags st) = port_out st"
  by (simp add: logScannedTags_def Let_def port_out_send_all)

lemma sendWithCrc_port_out:
  "snd (sendWithCrc st data) = None \<and>
   port_out (fst (sendWithCrc st data)) =
     port_out st @ [data @ [ucast (drop_bit 8 (crc16_ccitt_ref (drop 1 data))),
                            ucast (crc16_ccitt_ref (drop 1 data))]]"
proof -
  obtain c where c: "calculate (new_CRC MSG_CCITT_CRC_POLY MSG_CRC_INIT) (drop 1 data)
                     = (c, ucast (crc16_ccitt_ref (drop 1 data)))"
    using calculate_ref [of "drop 1 data"] by (cases "calculate (new_CRC MSG_CCITT_CRC_POLY MSG_CRC_INIT) (drop 1 data)") simp
  show ?thesis
    unfolding sendWithCrc_def slice_from_1 c
    by (simp add: writeUInt16BE_ucast Let_def port_out_logScannedTags clearInterval_def setInterval_def
             split: option.split)
qed

text \<open>
  Claim C1. For every byte sequence, \<open>CRC.calculate\<close> (on a freshly constructed \<open>CRC\<close>,
  as \<open>sendWithCrc\<close> uses it) returns the reference CRC-16/CCITT value: register
  \<open>0xFFFF\<close>, bits taken from the most significant to the least significant, shift left
  truncated to 16 bits, OR of the bit, XOR with \<open>0x1021\<close> when the bit shifted out was
  set. \<open>sendWithCrc\<close> raises nothing and writes to the port the command followed by
  exactly this value, computed over the bytes after the header byte, high byte first.
\<close>

theorem C1_crc_matches_reference:
  "snd (calculate (new_CRC MSG_CCITT_CRC_POLY MSG_CRC_INIT) data) = ucast (crc16_ccitt_ref data)
   \<and> snd (sendWithCrc st data) = None
   \<and> port_out (fst (sendWithCrc st data)) =
       port_out st @ [data @ [ucast (drop_bit 8 (crc16_ccitt_ref (drop 1 data))),
                              ucast (crc16_ccitt_ref (drop 1 data))]]"
  using calculate_ref [of data] sendWithCrc_port_out [of st data] by simp

section \<open>Frame reassembly\<close>

lemma data_loop_unfold:
  "data_loop h dbg b s =
     (if 5 \<le> length b then
        (if b ! 0 \<noteq> HEADER_BYTE then data_loop h dbg (drop 1 b) s
         else if length b < 7 + unat (b ! 1) then (b, s, None)
         else (case h s (take (7 + unat (b ! 1)) b) of
                 (s', Some e) \<Rightarrow> catch_block dbg b s'
               | (s', None) \<Rightarrow> data_loop h dbg (drop (7 + unat (b ! 1)) b) s'))
      else (b, s, None))"
proof -
  have t: "1 + 1 + 1 + 2 + unat (b ! 1) + 2 = 7 + unat (b ! 1)" by simp
  show ?thesis
    by (subst data_loop.simps)
       (simp only: slice_from_1 readUInt8_def slice_0_take slice_from_drop Let_def t
          sum.case if_True if_False split: if_split, simp)
qed


lemma data_loop_no_exn:
  assumes hn: "\<forall>s p. 7 \<le> length p \<longrightarrow> snd (h s p) = None"
  shows "snd (snd (data_loop h dbg b s)) = None"
proof (induction "length b" arbitrary: b s rule: less_induct)
  case less
  show ?case
  proof (cases "5 \<le> length b \<and> \<not> (b ! 0 = HEADER_BYTE \<and> length b < 7 + unat (b ! 1))")
    case False
    then show ?thesis by (subst data_loop_unfold) auto
  next
    case True
    show ?thesis
    proof (cases "b ! 0 = HEADER_BYTE")
      case False
      have "length (drop 1 b) < length b" using True by (simp; arith)
      from less [OF this, of s] True False show ?thesis
        by (subst data_loop_unfold) simp
    next
      case hd: True
      let ?t = "7 + unat (b ! 1)"
      from True hd have len: "?t \<le> length b" by simp
      have "snd (h s (take ?t b)) = None"
        using hn len by simp
      then obtain s' where h: "h s (take ?t b) = (s', None)"
        by (cases "h s (take ?t b)") simp
      have "length (drop ?t b) < length b" using True by (simp; arith)
      from less [OF this, of s'] True hd h show ?thesis
        by (subst data_loop_unfold) simp
    qed
  qed
qed

lemma data_loop_append:
  assumes hn: "\<forall>s p. 7 \<le> length p \<longrightarrow> snd (h s p) = None"
  shows "data_loop h dbg (b @ c) s =
           (case data_loop h dbg b s of (b', s', e) \<Rightarrow> data_loop h dbg (b' @ c) s')"
proof (induction "length b" arbitrary: b s rule: less_induct)
  case less
  show ?case
  proof (cases "5 \<le> length b \<and> \<not> (b ! 0 = HEADER_BYTE \<and> length b < 7 + unat (b ! 1))")
    case False
    then have "data_loop h dbg b s = (b, s, None)"
      by (subst data_loop_unfold) auto
    then show ?thesis by simp
  next
    case True
    then have b5: "5 \<le> length b" by simp
    then have nth0: "(b @ c) ! 0 = b ! 0" and nth1: "(b @ c) ! 1 = b ! 1"
      by (auto simp add: nth_append)
    show ?thesis
    proof (cases "b ! 0 = HEADER_BYTE")
      case False
      have l: "data_loop h dbg (b @ c) s = data_loop h dbg (drop 1 b @ c) s"
        using False b5 nth0 by (subst data_loop_unfold) simp
      have r: "data_loop h dbg b s = data_loop h dbg (drop 1 b) s"
        using False b5 by (subst data_loop_unfold) simp
      have "length (drop 1 b) < length b" using b5 by (simp; arith)
      from less [OF this, of s] show ?thesis unfolding l r by simp
    next
      case hd: True
      let ?t = "7 + unat (b ! 1)"
      from True hd have len: "?t \<le> length b" by simp
      have "snd (h s (take ?t b)) = None"
        using hn len by simp
      then obtain s' where h: "h s (take ?t b) = (s', None)"
        by (cases "h s (take ?t b)") simp
      have l: "data_loop h dbg (b @ c) s = data_loop h dbg (drop ?t b @ c) s'"
        using hd b5 len nth0 nth1 h by (subst data_loop_unfold) simp
      have r: "data_loop h dbg b s = data_loop h dbg (drop ?t b) s'"
        using hd b5 len h by (subst data_loop_unfold) simp
      have "length (drop ?t b) < length b" using b5 by (simp; arith)
      from less [OF this, of s'] show ?thesis unfolding l r by simp
    qed
  qed
qed

lemma feed_concat:
  assumes hn: "\<forall>s p. 7 \<le> length p \<longrightarrow> snd (h s p) = None"
  shows "feed h dbg (b, s) (c # cs) = port_on_data h dbg (b, s) (concat (c # cs))"
proof (induction cs arbitrary: b s c)
  case Nil
  obtain b' s' where d: "data_loop h dbg (b @ c) s = (b', s', None)"
    using data_loop_no_exn [OF hn, of dbg "b @ c" s] by (cases "data_loop h dbg (b @ c) s") auto
  then show ?case by (simp add: port_on_data_def)
next
  case (Cons c' cs)
  obtain b' s' where d: "data_loop h dbg (b @ c) s = (b', s', None)"
    using data_loop_no_exn [OF hn, of dbg "b @ c" s] by (cases "data_loop h dbg (b @ c) s") auto
  have "feed h dbg (b, s) (c # c' # cs) = feed h dbg (b', s') (c' # cs)"
    using d by (simp add: port_on_data_def)
  also have "\<dots> = data_loop h dbg (b' @ concat (c' # cs)) s'"
    using Cons.IH [of b' s' c'] by (simp add: port_on_data_def)
  also have "\<dots> = data_loop h dbg ((b @ c) @ concat (c' # cs)) s"
    using data_loop_append [OF hn, of dbg "b @ c" "concat (c' # cs)" s] d by simp
  finally show ?case by (simp add: port_on_data_def)
qed


lemma snd_sendWithCrc: "snd (sendWithCrc st data) = None"
  using sendWithCrc_port_out [of st data] by simp

lemma parseResponse_no_exn:
  assumes "5 \<le> length p"
  shows "snd (parseResponse now dbg st p) = None"
proof -
  from assms have ne: "p \<noteq> []" by auto
  from assms have r: "readUInt16BE p 3 = Inr (unat (p ! 3) * 256 + unat (p ! 4))"
    by (simp add: readUInt16BE_def)
  show ?thesis
    unfolding parseResponse_def r
    by (simp add: ne Let_def snd_sendWithCrc split: prod.split)
qed

text \<open>
  Claim C2. Feeding the chunks of a byte stream one at a time gives the same frames, in
  the same order, as feeding the whole stream in one chunk: stated for the handler that
  records the frames it is given, and for \<open>parseResponse\<close> itself, where the whole
  resulting state (tables, handshake state, port writes, messages) is the same, the
  readings of the clock being the same. The remaining buffer is the same too. The buffer
  before the first chunk is arbitrary when there is at least one chunk, and empty (as at
  program start) otherwise.
\<close>

theorem C2_chunking_invariance:
  assumes "chunks \<noteq> [] \<or> b = []"
  shows "feed record_frame dbg (b, frames) chunks
           = port_on_data record_frame dbg (b, frames) (concat chunks)
       \<and> feed (parseResponse now dbg) dbg (b, st) chunks
           = port_on_data (parseResponse now dbg) dbg (b, st) (concat chunks)"
proof (cases chunks)
  case Nil
  with assms have "b = []" by simp
  with Nil show ?thesis
    by (simp add: port_on_data_def data_loop_unfold)
next
  case (Cons c cs)
  have 1: "\<forall>s p. 7 \<le> length p \<longrightarrow> snd (record_frame s p) = None"
    by (simp add: record_frame_def)
  have 2: "\<forall>s p. 7 \<le> length p \<longrightarrow> snd (parseResponse now dbg s p) = None"
    by (simp add: parseResponse_no_exn)
  show ?thesis
    unfolding Cons using feed_concat [OF 1] feed_concat [OF 2] by blast
qed

lemma ex_chunks_whole:
  "port_on_data record_frame True ([], []) (concat ex_chunks)
     = ([7], [[0xFF, 0, 0, 0, 0, 0, 0], [0xFF, 2, 0, 0, 0, 9, 9, 0, 0]], None)"
  by (simp add: ex_chunks_def port_on_data_def data_loop_unfold record_frame_def HEADER_BYTE_def)

theorem C2_chunking_invariance_witness:
  "ex_chunks \<noteq> []
   \<and> feed record_frame True ([], []) ex_chunks
       = ([7], [[0xFF, 0, 0, 0, 0, 0, 0], [0xFF, 2, 0, 0, 0, 9, 9, 0, 0]], None)
   \<and> port_on_data record_frame True ([], []) (concat ex_chunks)
       = ([7], [[0xFF, 0, 0, 0, 0, 0, 0], [0xFF, 2, 0, 0, 0, 9, 9, 0, 0]], None)"
proof -
  have h: "ex_chunks \<noteq> [] \<or> ([] :: buffer) = []" by simp
  from C2_chunking_invariance [OF h, of True "[]"] ex_chunks_whole
  show ?thesis by (simp add: ex_chunks_def)
qed

text \<open>
  Claim C3. With at least five bytes buffered, one step of the loop: a first byte other
  than \<open>0xFF\<close> is dropped, alone, and the loop retries; with the header present the total
  length is \<open>5 + payload length + 2\<close>; with fewer bytes buffered the loop stops, the
  buffer and the state untouched and no frame handed over; otherwise exactly that many
  bytes are handed to the frame handler as one frame and removed from the buffer (when
  the handler returns normally). For the recording handler the frame list grows by this
  one frame.
\<close>

theorem C3_loop_step:
  assumes "5 \<le> length b"
  shows "(b ! 0 \<noteq> HEADER_BYTE \<longrightarrow> data_loop h dbg b s = data_loop h dbg (drop 1 b) s)
       \<and> (b ! 0 = HEADER_BYTE \<and> length b < 5 + unat (b ! 1) + 2
            \<longrightarrow> data_loop h dbg b s = (b, s, None))
       \<and> (b ! 0 = HEADER_BYTE \<and> 5 + unat (b ! 1) + 2 \<le> length b
            \<and> h s (take (5 + unat (b ! 1) + 2) b) = (s', None)
            \<longrightarrow> data_loop h dbg b s = data_loop h dbg (drop (5 + unat (b ! 1) + 2) b) s')
       \<and> (b ! 0 = HEADER_BYTE \<and> 5 + unat (b ! 1) + 2 \<le> length b
            \<longrightarrow> data_loop record_frame dbg b frames
                = data_loop record_frame dbg (drop (5 + unat (b ! 1) + 2) b)
                    (frames @ [take (5 + unat (b ! 1) + 2) b]))"
proof -
  have t: "5 + unat (b ! 1) + 2 = 7 + unat (b ! 1)" by simp
  show ?thesis
    unfolding t using assms
    by (intro conjI impI; subst data_loop_unfold) (simp_all add: record_frame_def)
qed

theorem C3_loop_step_witness:
  "data_loop record_frame True [1, 0xFF, 0, 0, 0, 0, 0, 0] []
     = data_loop record_frame True [0xFF, 0, 0, 0, 0, 0, 0] []
   \<and> data_loop record_frame True [0xFF, 3, 0, 0, 0, 1, 2] [] = ([0xFF, 3, 0, 0, 0, 1, 2], [], None)
   \<and> data_loop record_frame True [0xFF, 0, 0, 0, 0, 0, 0, 7] []
     = data_loop record_frame True [7] [[0xFF, 0, 0, 0, 0, 0, 0]]"
  using C3_loop_step [of "[1, 0xFF, 0, 0, 0, 0, 0, 0]" record_frame True "[]"]
        C3_loop_step [of "[0xFF, 3, 0, 0, 0, 1, 2]" record_frame True "[]"]
        C3_loop_step [of "[0xFF, 0, 0, 0, 0, 0, 0, 7]" record_frame True "[]" _ "[]"]
  by (simp add: HEADER_BYTE_def)

text \<open>The \<open>catch\<close> block, reached when the frame handler raises on the candidate frame:
  with debugging off the buffer is emptied and nothing leaves the handler; with debugging
  on the buffer is kept and a \<open>ReferenceError\<close> leaves it.\<close>

lemma data_loop_handler_raises:
  assumes "5 \<le> length b" and "b ! 0 = HEADER_BYTE" and "7 + unat (b ! 1) \<le> length b"
    and "h s (take (7 + unat (b ! 1)) b) = (s', Some e)"
  shows "data_loop h dbg b s = (if dbg then (b, s', Some ReferenceError) else ([], s', None))"
  using assms by (subst data_loop_unfold) (simp add: catch_block_def)

text \<open>With \<open>parseResponse\<close> as the frame handler, whose own operations cannot raise on a
  frame of the reassembler, the handler of port data raises nothing; the \<open>catch\<close> block
  is reached only when something \<open>parseResponse\<close> calls fails.\<close>

lemma data_handler_parseResponse_no_exn:
  "snd (snd (port_on_data (parseResponse now dbg) dbg (b, st) data)) = None"
  unfolding port_on_data_def
  by (rule data_loop_no_exn) (simp add: parseResponse_no_exn)


section \<open>Commands and the frame handler\<close>

lemma start_app_bytes: "Buffer_from_hex HEX_START_APP = [0xFF, 0x00, 0x04, 0x1D, 0x0B]"
  by (simp add: HEX_START_APP_def hex_val_def)

lemma get_stage_bytes: "Buffer_from_hex HEX_GET_RUNNING_STAGE = [0xFF, 0x00, 0x0C, 0x1D, 0x03]"
  by (simp add: HEX_GET_RUNNING_STAGE_def hex_val_def)

lemma scan_start_bytes:
  "Buffer_from_hex HEX_SCAN_START =
     [0xFF, 0x13, 0xAA, 0x4D, 0x6F, 0x64, 0x75, 0x6C, 0x65, 0x74, 0x65, 0x63, 0x68, 0xAA, 0x48,
      0, 0, 0, 0, 0, 0xF2, 0xBB, 0xE1, 0xCB]"
  by (simp add: HEX_SCAN_START_def hex_val_def)

lemma hex_start_app: "toString_hex (Buffer_from_hex HEX_START_APP) = HEX_START_APP"
  unfolding start_app_bytes
  by (simp add: toString_hex_def byte_hex_def hex_digit_def HEX_START_APP_def)

lemma hex_get_stage: "toString_hex (Buffer_from_hex HEX_GET_RUNNING_STAGE) = HEX_GET_RUNNING_STAGE"
  unfolding get_stage_bytes
  by (simp add: toString_hex_def byte_hex_def hex_digit_def HEX_GET_RUNNING_STAGE_def)

lemma hex_scan_start: "toString_hex (Buffer_from_hex HEX_SCAN_START) = HEX_SCAN_START"
  unfolding scan_start_bytes
  by (simp add: toString_hex_def byte_hex_def hex_digit_def HEX_SCAN_START_def)

lemma sendWithCrc_eq:
  "sendWithCrc st data =
     (let st1 = st\<lparr>port_out := port_out st @ [with_crc data]\<rparr>;
          hexString = toString_hex data
      in if prefix HEX_SCAN_START hexString then
           (let st2 = st1\<lparr>isScanning := True, scannedTagsCumulative := [],
                           scannedTagsRefresh := []\<rparr>;
                st3 = (case refreshIntervalId st2 of
                         Some h \<Rightarrow> clearInterval st2 h
                       | None \<Rightarrow> st2)
            in (setInterval st3, None))
         else if prefix HEX_SCAN_STOP hexString then
           (if isScanning st1 then
              (let st2 = st1\<lparr>isScanning := False\<rparr>;
                   st3 = (case refreshIntervalId st2 of
                            Some h \<Rightarrow> clearInterval st2 h
                          | None \<Rightarrow> st2)
               in (logScannedTags st3, None))
            else (st1, None))
         else (st1, None))"
proof -
  obtain c where c: "calculate (new_CRC MSG_CCITT_CRC_POLY MSG_CRC_INIT) (drop 1 data)
                     = (c, ucast (crc16_ccitt_ref (drop 1 data)))"
    using calculate_ref [of "drop 1 data"]
    by (cases "calculate (new_CRC MSG_CCITT_CRC_POLY MSG_CRC_INIT) (drop 1 data)") simp
  show ?thesis
    unfolding sendWithCrc_def slice_from_1 c with_crc_def
    by (simp add: writeUInt16BE_ucast Let_def)
qed

lemma sendWithCrc_start_app:
  "sendWithCrc st (Buffer_from_hex HEX_START_APP)
     = (st\<lparr>port_out := port_out st @ [with_crc (Buffer_from_hex HEX_START_APP)]\<rparr>, None)"
  unfolding sendWithCrc_eq hex_start_app
  by (simp add: HEX_START_APP_def HEX_SCAN_START_def HEX_SCAN_STOP_def)

lemma sendWithCrc_get_stage:
  "sendWithCrc st (Buffer_from_hex HEX_GET_RUNNING_STAGE)
     = (st\<lparr>port_out := port_out st @ [with_crc (Buffer_from_hex HEX_GET_RUNNING_STAGE)]\<rparr>, None)"
  unfolding sendWithCrc_eq hex_get_stage
  by (simp add: HEX_GET_RUNNING_STAGE_def HEX_SCAN_START_def HEX_SCAN_STOP_def)

lemma sendWithCrc_scan_start:
  "sendWithCrc st (Buffer_from_hex HEX_SCAN_START) = (scan_started st, None)"
  unfolding sendWithCrc_eq hex_scan_start scan_started_def
  by (simp add: Let_def)


lemma status_success:
  "(unat (a :: byte) * 256 + unat (b :: byte) = STATUS_SUCCESS) = (a = 0 \<and> b = 0)"
  by (auto simp add: STATUS_SUCCESS_def unat_eq_0)

lemma parseResponse_frame:
  assumes "well_formed f"
  shows "parseResponse now dbg st f =
     (if f ! 2 = CMD_START_APP \<and> toString_hex f = HEX_APP_START_ACK then
        (if auto_modes (mode st)
         then sendWithCrc (st\<lparr>autoModeState := 2\<rparr>) (Buffer_from_hex HEX_SCAN_START)
         else (st, None))
      else if f ! 2 = CMD_GET_RUNNING_STAGE then
        (if nth_opt (payload_of f) 0 = Some STAGE_APP then
           (if auto_modes (mode st) \<and> autoModeState st = 1
            then sendWithCrc (st\<lparr>autoModeState := 2\<rparr>) (Buffer_from_hex HEX_SCAN_START)
            else (st, None))
         else if nth_opt (payload_of f) 0 = Some STAGE_BOOTLOADER then
           (if auto_modes (mode st) \<and> autoModeState st = 1
            then sendWithCrc (st\<lparr>autoModeState := 0\<rparr>) (Buffer_from_hex HEX_START_APP)
            else (st, None))
         else (st, None))
      else if isScanning st \<and> (f ! 2 = CMD_RFID_INVENTORY \<or> f ! 2 = CMD_MULTI_TAG_INVENTORY)
              \<and> f ! 3 = 0 \<and> f ! 4 = 0 then
        (if mode st = MODE_READ_TAG
         then (read_tag_observation st (epcHex_of (payload_of f)), None)
         else (tag_observation now st (epcHex_of (payload_of f)), None))
      else (st, None))"
proof -
  from assms have len: "7 \<le> length f" and hd: "f ! 0 = HEADER_BYTE"
    by (simp_all add: well_formed_def)
  from len have ne: "f \<noteq> []" by auto
  from len hd ne have n0: "nth_opt f 0 = Some HEADER_BYTE" by (simp add: nth_opt_def)
  from len have r: "readUInt16BE f 3 = Inr (unat (f ! 3) * 256 + unat (f ! 4))"
    by (simp add: readUInt16BE_def)
  show ?thesis
    unfolding parseResponse_def r
    by (simp only: ne n0 Let_def payload_slice payload_of_def status_success sum.case
          simp_thms if_False if_True)
qed

lemma running_stage_payload:
  assumes "running_stage_reply f stage"
  shows "nth_opt (payload_of f) 0 = Some stage"
  using assms by (auto simp add: running_stage_reply_def well_formed_def payload_of_def nth_opt_def)


section \<open>Handshake\<close>

lemma startAutoMode_eq:
  "startAutoMode st =
     (st\<lparr>port_out := port_out st @ [with_crc (Buffer_from_hex HEX_START_APP)],
         autoModeState := 1, timeouts := timeouts st + 1\<rparr>, None)"
  by (simp add: startAutoMode_def sendWithCrc_start_app)

lemma startAutoMode_timeout_eq:
  "startAutoMode_timeout st =
     (if autoModeState st = 1
      then (st\<lparr>timeouts := timeouts st - 1,
               port_out := port_out st @ [with_crc (Buffer_from_hex HEX_GET_RUNNING_STAGE)]\<rparr>, None)
      else (st\<lparr>timeouts := timeouts st - 1\<rparr>, None))"
  by (simp add: startAutoMode_timeout_def sendWithCrc_get_stage Let_def)

lemma running_stage_cmd:
  assumes "running_stage_reply f stage"
  shows "well_formed f" and "f ! 2 = CMD_GET_RUNNING_STAGE" and "f ! 2 \<noteq> CMD_START_APP"
  using assms by (simp_all add: running_stage_reply_def CMD_GET_RUNNING_STAGE_def CMD_START_APP_def)

lemma stage_reply_app:
  assumes "running_stage_reply f STAGE_APP" and "autoModeState st = 1" and "auto_modes (mode st)"
  shows "parseResponse now dbg st f = (scan_started (st\<lparr>autoModeState := 2\<rparr>), None)"
  using assms running_stage_cmd [OF assms(1)] running_stage_payload [OF assms(1)]
  by (simp add: parseResponse_frame sendWithCrc_scan_start)

lemma stage_reply_bootloader:
  assumes "running_stage_reply f STAGE_BOOTLOADER" and "autoModeState st = 1"
    and "auto_modes (mode st)"
  shows "parseResponse now dbg st f =
           (st\<lparr>autoModeState := 0,
               port_out := port_out st @ [with_crc (Buffer_from_hex HEX_START_APP)]\<rparr>, None)"
  using assms running_stage_cmd [OF assms(1)] running_stage_payload [OF assms(1)]
  by (simp add: parseResponse_frame sendWithCrc_start_app STAGE_APP_def STAGE_BOOTLOADER_def)

lemma scan_started_fields:
  "autoModeState (scan_started st) = autoModeState st" "isScanning (scan_started st)"
  "timeouts (scan_started st) = timeouts st"
  "port_out (scan_started st) = port_out st @ [with_crc (Buffer_from_hex HEX_SCAN_START)]"
  by (simp_all add: scan_started_def setInterval_def clearInterval_def Let_def split: option.split)

text \<open>
  Claim C5, as the code has it. \<open>autoModeState\<close> takes three values: 0 (idle), 1 (set by
  \<open>startAutoMode\<close>: application start requested) and 2 (scanning). \<open>startAutoMode\<close> sends
  start-application, sets the state to 1 and arms one timeout. When the timeout fires in
  state 1, query-running-stage is sent and the state stays 1: there is no separate state
  for a queried stage. On a running-stage reply in state 1 (in mode auto, inventory or
  read-tag), stage Application sends begin-scan and sets the state to 2; stage Bootloader
  sends start-application again and sets the state to 0, and arms no timeout.
\<close>

theorem C5_handshake_transitions:
  "startAutoMode st =
     (st\<lparr>port_out := port_out st @ [with_crc (Buffer_from_hex HEX_START_APP)],
         autoModeState := 1, timeouts := timeouts st + 1\<rparr>, None)
   \<and> (autoModeState st = 1 \<longrightarrow>
        startAutoMode_timeout st =
          (st\<lparr>timeouts := timeouts st - 1,
              port_out := port_out st @ [with_crc (Buffer_from_hex HEX_GET_RUNNING_STAGE)]\<rparr>, None))
   \<and> (running_stage_reply f STAGE_APP \<and> autoModeState st = 1 \<and> auto_modes (mode st) \<longrightarrow>
        parseResponse now dbg st f = (scan_started (st\<lparr>autoModeState := 2\<rparr>), None)
        \<and> autoModeState (scan_started (st\<lparr>autoModeState := 2\<rparr>)) = 2
        \<and> port_out (scan_started (st\<lparr>autoModeState := 2\<rparr>))
            = port_out st @ [with_crc (Buffer_from_hex HEX_SCAN_START)])
   \<and> (running_stage_reply f' STAGE_BOOTLOADER \<and> autoModeState st = 1 \<and> auto_modes (mode st) \<longrightarrow>
        parseResponse now dbg st f' =
          (st\<lparr>autoModeState := 0,
              port_out := port_out st @ [with_crc (Buffer_from_hex HEX_START_APP)]\<rparr>, None))"
  by (simp add: startAutoMode_eq startAutoMode_timeout_eq stage_reply_app stage_reply_bootloader
        scan_started_fields)

lemma ex_requested_eq:
  "ex_requested = (initial_state MODE_AUTO)
     \<lparr>port_out := [with_crc (Buffer_from_hex HEX_START_APP)], autoModeState := 1, timeouts := 1\<rparr>"
  by (simp add: ex_requested_def startAutoMode_eq initial_state_def)

text \<open>
  Claim C5 as stated fails: after the timeout the state is still the one
  \<open>startAutoMode\<close> set, and after a Bootloader reply the state is 0, not that state,
  with no timeout pending.
\<close>

theorem C5_handshake_counterexample:
  "autoModeState ex_requested = 1
   \<and> autoModeState (fst (startAutoMode_timeout ex_requested)) = 1
   \<and> autoModeState (fst (parseResponse ex_clock True (fst (startAutoMode_timeout ex_requested))
                           ex_bootloader_reply)) = 0
   \<and> timeouts (fst (parseResponse ex_clock True (fst (startAutoMode_timeout ex_requested))
                           ex_bootloader_reply)) = 0"
proof -
  have r: "running_stage_reply ex_bootloader_reply STAGE_BOOTLOADER"
    by (simp add: running_stage_reply_def well_formed_def ex_bootloader_reply_def HEADER_BYTE_def
          CMD_GET_RUNNING_STAGE_def STAGE_BOOTLOADER_def)
  have m: "auto_modes MODE_AUTO" by (simp add: auto_modes_def)
  show ?thesis
    by (simp add: ex_requested_eq startAutoMode_timeout_eq initial_state_def
          stage_reply_bootloader [OF r] m)
qed

theorem C5_handshake_transitions_witness:
  "autoModeState ex_requested = 1
   \<and> running_stage_reply ex_app_reply STAGE_APP
   \<and> running_stage_reply ex_bootloader_reply STAGE_BOOTLOADER
   \<and> auto_modes (mode ex_requested)
   \<and> port_out (fst (startAutoMode_timeout ex_requested))
       = [with_crc (Buffer_from_hex HEX_START_APP), with_crc (Buffer_from_hex HEX_GET_RUNNING_STAGE)]
   \<and> autoModeState (fst (parseResponse ex_clock True ex_requested ex_app_reply)) = 2
   \<and> autoModeState (fst (parseResponse ex_clock True ex_requested ex_bootloader_reply)) = 0"
proof -
  have a: "running_stage_reply ex_app_reply STAGE_APP"
    by (simp add: running_stage_reply_def well_formed_def ex_app_reply_def HEADER_BYTE_def
          CMD_GET_RUNNING_STAGE_def STAGE_APP_def)
  have b: "running_stage_reply ex_bootloader_reply STAGE_BOOTLOADER"
    by (simp add: running_stage_reply_def well_formed_def ex_bootloader_reply_def HEADER_BYTE_def
          CMD_GET_RUNNING_STAGE_def STAGE_BOOTLOADER_def)
  have s: "autoModeState ex_requested = 1" "auto_modes (mode ex_requested)"
    "port_out ex_requested = [with_crc (Buffer_from_hex HEX_START_APP)]"
    by (simp_all add: ex_requested_eq initial_state_def auto_modes_def)
  from C5_handshake_transitions [of ex_requested ex_app_reply ex_clock True ex_bootloader_reply]
    a b s show ?thesis by simp
qed


section \<open>Read-tag mode\<close>

lemma mostFrequent_snoc:
  "mostFrequent (xs @ [(k, c)]) =
     (if snd (mostFrequent xs) < c then (k, c) else mostFrequent xs)"
  by (simp add: mostFrequent_def split: prod.split)

lemma mostFrequent_upper: "\<forall>j < length xs. snd (xs ! j) \<le> snd (mostFrequent xs)"
proof (induction xs rule: rev_induct)
  case Nil
  then show ?case by simp
next
  case (snoc x xs)
  obtain k c where x: "x = (k, c)" by (cases x)
  show ?case
    unfolding x mostFrequent_snoc using snoc
    by (auto simp add: nth_append less_Suc_eq dest: less_imp_le order_trans)
qed

lemma mostFrequent_first:
  assumes "0 < snd (mostFrequent xs)"
  shows "\<exists>i < length xs. xs ! i = mostFrequent xs \<and> (\<forall>j < i. snd (xs ! j) < snd (mostFrequent xs))"
  using assms
proof (induction xs rule: rev_induct)
  case Nil
  then show ?case by (simp add: mostFrequent_def)
next
  case (snoc x xs)
  obtain k c where x: "x = (k, c)" by (cases x)
  show ?case
  proof (cases "snd (mostFrequent xs) < c")
    case True
    have "\<forall>j < length xs. snd ((xs @ [(k, c)]) ! j) < c"
      using mostFrequent_upper [of xs] True by (auto simp add: nth_append)
    with True show ?thesis
      unfolding x mostFrequent_snoc
      by (intro exI [of _ "length xs"]) simp
  next
    case False
    with snoc.prems have "0 < snd (mostFrequent xs)" by (simp add: x mostFrequent_snoc)
    from snoc.IH [OF this] obtain i where i: "i < length xs" "xs ! i = mostFrequent xs"
      "\<forall>j < i. snd (xs ! j) < snd (mostFrequent xs)" by blast
    then have "\<forall>j < i. snd ((xs @ [(k, c)]) ! j) < snd (mostFrequent xs)"
      by (auto simp add: nth_append)
    with i False show ?thesis
      unfolding x mostFrequent_snoc
      by (intro exI [of _ i]) (simp add: nth_append)
  qed
qed

lemma mostFrequent_positive:
  assumes "(k, c) \<in> set xs" and "0 < c"
  shows "0 < snd (mostFrequent xs)"
proof -
  from assms(1) obtain j where "j < length xs" "xs ! j = (k, c)" by (auto simp add: in_set_conv_nth)
  with mostFrequent_upper [of xs] have "c \<le> snd (mostFrequent xs)" by force
  with assms(2) show ?thesis by simp
qed

lemma Map_set_mem: "(k, v) \<in> set (Map_set m k v)"
  unfolding Map_set_def by (induction m) auto


lemma parseResponse_tag_read:
  assumes "tag_read_frame f" and "isScanning st"
  shows "parseResponse now dbg st f =
           (if mode st = MODE_READ_TAG
            then (read_tag_observation st (epcHex_of (payload_of f)), None)
            else (tag_observation now st (epcHex_of (payload_of f)), None))"
proof -
  from assms(1) have w: "well_formed f" and c: "f ! 2 \<noteq> CMD_START_APP"
    "f ! 2 \<noteq> CMD_GET_RUNNING_STAGE" "f ! 2 = CMD_RFID_INVENTORY \<or> f ! 2 = CMD_MULTI_TAG_INVENTORY"
    "f ! 3 = 0" "f ! 4 = 0"
    by (auto simp add: tag_read_frame_def CMD_START_APP_def CMD_GET_RUNNING_STAGE_def
          CMD_RFID_INVENTORY_def CMD_MULTI_TAG_INVENTORY_def)
  show ?thesis
    unfolding parseResponse_frame [OF w] using c assms(2) by simp
qed

lemma read_tag_observation_eq:
  "read_tag_observation st e =
     st\<lparr>readTagScans := Map_set (readTagScans st) e
                            ((case Map_get (readTagScans st) e of Some n \<Rightarrow> n | None \<Rightarrow> 0) + 1),
        ws_out := ws_out st @
          map (\<lambda>c. (cid c, EpcMsg (fst (mostFrequent (Map_set (readTagScans st) e
                  ((case Map_get (readTagScans st) e of Some n \<Rightarrow> n | None \<Rightarrow> 0) + 1))))))
              (open_clients st)\<rparr>"
  by (simp add: read_tag_observation_def send_all_def open_clients_def Let_def split: prod.split)


lemma ex_AAB:
  "reports (fst (snd (port_on_data (parseResponse ex_clock True) True ([], ex_read_tag_state)
                          (ex_tag_A @ ex_tag_A @ ex_tag_B))))
       = [EpcMsg ''A1'', EpcMsg ''A1'', EpcMsg ''A1'']"
  by code_simp

lemma read_tag_general:
  assumes f: "tag_read_frame f" and sc: "isScanning st" and m: "mode st = MODE_READ_TAG"
  shows "\<exists>st' r m i.
          parseResponse now dbg st f = (st', None)
        \<and> readTagScans st' =
            Map_set (readTagScans st) (epcHex_of (payload_of f))
              ((case Map_get (readTagScans st) (epcHex_of (payload_of f)) of
                  Some n \<Rightarrow> n | None \<Rightarrow> 0) + 1)
        \<and> ws_out st' = ws_out st @ map (\<lambda>c. (cid c, EpcMsg r)) (open_clients st)
        \<and> i < length (readTagScans st') \<and> readTagScans st' ! i = (r, m)
        \<and> (\<forall>j < length (readTagScans st'). snd (readTagScans st' ! j) \<le> m)
        \<and> (\<forall>j < i. snd (readTagScans st' ! j) < m)"
proof -
  let ?e = "epcHex_of (payload_of f)"
  let ?n = "(case Map_get (readTagScans st) ?e of Some n \<Rightarrow> n | None \<Rightarrow> 0) + 1"
  let ?tbl = "Map_set (readTagScans st) ?e ?n"
  let ?st' = "read_tag_observation st ?e"
  have p: "parseResponse now dbg st f = (?st', None)"
    using parseResponse_tag_read [OF f sc] m by simp
  have t: "readTagScans ?st' = ?tbl"
    by (simp add: read_tag_observation_eq)
  have w: "ws_out ?st' = ws_out st @ map (\<lambda>c. (cid c, EpcMsg (fst (mostFrequent ?tbl)))) (open_clients st)"
    by (simp add: read_tag_observation_eq)
  have "0 < snd (mostFrequent ?tbl)"
    by (rule mostFrequent_positive [OF Map_set_mem]) simp
  from mostFrequent_first [OF this] obtain i where i: "i < length ?tbl" "?tbl ! i = mostFrequent ?tbl"
    "\<forall>j < i. snd (?tbl ! j) < snd (mostFrequent ?tbl)" by blast
  have u: "\<forall>j < length ?tbl. snd (?tbl ! j) \<le> snd (mostFrequent ?tbl)"
    by (rule mostFrequent_upper)
  show ?thesis
    apply (rule exI [of _ ?st'])
    apply (rule exI [of _ "fst (mostFrequent ?tbl)"])
    apply (rule exI [of _ "snd (mostFrequent ?tbl)"])
    apply (rule exI [of _ i])
    unfolding t
    using p w i u by simp
qed


text \<open>
  Claim C6, as the code has it. In read-tag mode every accepted tag-read frame raises the
  count of its identifier by one and sends to every open client the identifier \<open>r\<close>
  found by the scan of the table: \<open>r\<close> has the highest count \<open>m\<close> in the table, and every
  entry before it in the table (every identifier first observed earlier in the session)
  has a count strictly below \<open>m\<close>. So among identifiers with the highest count the one
  first observed is reported. For the observations A, A, B the reports are A, A, A.
\<close>

theorem C6_read_tag_report:
  "(tag_read_frame f \<and> isScanning st \<and> mode st = MODE_READ_TAG \<longrightarrow>
      (\<exists>st' r m i.
          parseResponse now dbg st f = (st', None)
        \<and> readTagScans st' =
            Map_set (readTagScans st) (epcHex_of (payload_of f))
              ((case Map_get (readTagScans st) (epcHex_of (payload_of f)) of
                  Some n \<Rightarrow> n | None \<Rightarrow> 0) + 1)
        \<and> ws_out st' = ws_out st @ map (\<lambda>c. (cid c, EpcMsg r)) (open_clients st)
        \<and> i < length (readTagScans st') \<and> readTagScans st' ! i = (r, m)
        \<and> (\<forall>j < length (readTagScans st'). snd (readTagScans st' ! j) \<le> m)
        \<and> (\<forall>j < i. snd (readTagScans st' ! j) < m)))
   \<and> reports (fst (snd (port_on_data (parseResponse ex_clock True) True ([], ex_read_tag_state)
                          (ex_tag_A @ ex_tag_A @ ex_tag_B))))
       = [EpcMsg ''A1'', EpcMsg ''A1'', EpcMsg ''A1'']"
  using read_tag_general [of f st now dbg] ex_AAB by blast

lemma ex_tag_A_facts:
  "tag_read_frame ex_tag_A" "epcHex_of (payload_of ex_tag_A) = ''A1''"
  "isScanning ex_read_tag_state" "mode ex_read_tag_state = MODE_READ_TAG"
  "readTagScans ex_read_tag_state = []" "ws_out ex_read_tag_state = []"
  "open_clients ex_read_tag_state = [\<lparr>cid = 0, readyState = 1\<rparr>]"
  by code_simp+

theorem C6_read_tag_report_witness:
  "tag_read_frame ex_tag_A \<and> isScanning ex_read_tag_state
   \<and> mode ex_read_tag_state = MODE_READ_TAG
   \<and> readTagScans (fst (parseResponse ex_clock True ex_read_tag_state ex_tag_A)) = [(''A1'', 1)]
   \<and> ws_out (fst (parseResponse ex_clock True ex_read_tag_state ex_tag_A)) = [(0, EpcMsg ''A1'')]"
proof -
  from C6_read_tag_report [of ex_tag_A ex_read_tag_state ex_clock True] ex_tag_A_facts
  obtain st' r m i where
    p: "parseResponse ex_clock True ex_read_tag_state ex_tag_A = (st', None)"
    and t: "readTagScans st' = Map_set [] ''A1'' (Suc 0)"
    and w: "ws_out st' = [(0, EpcMsg r)]"
    and i: "i < length (readTagScans st')" "readTagScans st' ! i = (r, m)"
    by (auto simp add: Map_get_def)
  have t': "readTagScans st' = [(''A1'', 1)]" unfolding t by (simp add: Map_set_def)
  with i have "r = ''A1''" by simp
  with p t' w show ?thesis by (simp add: ex_tag_A_facts)
qed


text \<open>
  Claim C6 as stated fails for the observations A, B, B, A: after the third, B is
  reported with the highest count 2; the fourth brings A to 2, which merely equals the
  current maximum, and A replaces B as the reported identifier.
\<close>

theorem C6_tie_counterexample:
  "reports (fst (snd (port_on_data (parseResponse ex_clock True) True ([], ex_read_tag_state)
                        (ex_tag_A @ ex_tag_B @ ex_tag_B))))
     = [EpcMsg ''A1'', EpcMsg ''A1'', EpcMsg ''B2'']
   \<and> readTagScans (fst (snd (port_on_data (parseResponse ex_clock True) True ([], ex_read_tag_state)
                        (ex_tag_A @ ex_tag_B @ ex_tag_B))))
     = [(''A1'', 1), (''B2'', 2)]
   \<and> reports (fst (snd (port_on_data (parseResponse ex_clock True) True ([], ex_read_tag_state)
                        (ex_tag_A @ ex_tag_B @ ex_tag_B @ ex_tag_A))))
     = [EpcMsg ''A1'', EpcMsg ''A1'', EpcMsg ''B2'', EpcMsg ''A1'']
   \<and> readTagScans (fst (snd (port_on_data (parseResponse ex_clock True) True ([], ex_read_tag_state)
                        (ex_tag_A @ ex_tag_B @ ex_tag_B @ ex_tag_A))))
     = [(''A1'', 2), (''B2'', 2)]"
  by code_simp


section \<open>Flush\<close>

lemma inventoryUpdates_epcs:
  "map u_epc (inventoryUpdates_of st)
     = filter (Map_has (inventoryData st)) (map fst (scannedTagsRefresh st))"
proof -
  have "map u_epc (concat (map (\<lambda>(epc, data).
          case Map_get inv epc of
            None \<Rightarrow> []
          | Some item \<Rightarrow>
              [\<lparr>u_id = item_id item, u_timestamp = timestamp data, u_epc = epc,
                u_item = item_name item, u_count = count data\<rparr>]) tbl))
        = filter (Map_has inv) (map fst tbl)" for inv :: "(string \<times> inv_item) list"
      and tbl :: "(string \<times> tag_entry) list"
    by (induction tbl) (auto simp add: Map_has_def Map_get_def split: option.split)
  then show ?thesis by (simp add: inventoryUpdates_of_def)
qed

lemma inventoryUpdates_records:
  assumes "u \<in> set (inventoryUpdates_of st)"
  shows "\<exists>data item. (u_epc u, data) \<in> set (scannedTagsRefresh st)
           \<and> Map_get (inventoryData st) (u_epc u) = Some item
           \<and> u = \<lparr>u_id = item_id item, u_timestamp = timestamp data, u_epc = u_epc u,
                   u_item = item_name item, u_count = count data\<rparr>"
proof -
  from assms obtain epc data item where
    m: "(epc, data) \<in> set (scannedTagsRefresh st)"
    and g: "Map_get (inventoryData st) epc = Some item"
    and u: "u = \<lparr>u_id = item_id item, u_timestamp = timestamp data, u_epc = epc,
                 u_item = item_name item, u_count = count data\<rparr>"
    by (auto simp add: inventoryUpdates_of_def split: option.splits) metis
  from u have e: "u_epc u = epc" by simp
  show ?thesis
    unfolding e using m g u by (intro exI [of _ data] exI [of _ item]) simp
qed

lemma logScannedTags_eq:
  "logScannedTags st =
     st\<lparr>scannedTagsRefresh := [],
        ws_out := ws_out st @
          (if inventoryUpdates_of st = [] then []
           else map (\<lambda>c. (cid c, UpdatesMsg (inventoryUpdates_of st))) (open_clients st))\<rparr>"
  by (simp add: logScannedTags_def Let_def send_all_def open_clients_def inventoryUpdates_of_def)

text \<open>
  Claim C7, as the code has it. A flush builds one update record
  \<open>{id, timestamp, epc, item, count}\<close> for every identifier of the window table that is
  present in the inventory, in the order of the table, and skips every identifier absent
  from the inventory, in every mode. When there is at least one record, the batch is
  sent to every client whose connection is open; otherwise nothing is sent. The window
  table is then empty and the cumulative table unchanged. An identifier observed with
  the inventory filter on and absent from the inventory leaves the state as it was, with
  no error: it is in no table and thus in no flush.
\<close>

theorem C7_flush:
  "logScannedTags st =
     st\<lparr>scannedTagsRefresh := [],
        ws_out := ws_out st @
          (if inventoryUpdates_of st = [] then []
           else map (\<lambda>c. (cid c, UpdatesMsg (inventoryUpdates_of st))) (open_clients st))\<rparr>
   \<and> map u_epc (inventoryUpdates_of st)
       = filter (Map_has (inventoryData st)) (map fst (scannedTagsRefresh st))
   \<and> (\<forall>u \<in> set (inventoryUpdates_of st).
         \<exists>data item. (u_epc u, data) \<in> set (scannedTagsRefresh st)
           \<and> Map_get (inventoryData st) (u_epc u) = Some item
           \<and> u = \<lparr>u_id = item_id item, u_timestamp = timestamp data, u_epc = u_epc u,
                   u_item = item_name item, u_count = count data\<rparr>)
   \<and> scannedTagsRefresh (logScannedTags st) = []
   \<and> scannedTagsCumulative (logScannedTags st) = scannedTagsCumulative st
   \<and> (inventoryMode st \<and> \<not> Map_has (inventoryData st) e \<longrightarrow> tag_observation now st e = st)"
  using inventoryUpdates_records [of _ st]
  by (simp add: logScannedTags_eq [symmetric] inventoryUpdates_epcs tag_observation_def)
     (simp add: logScannedTags_eq)


theorem C7_flush_witness:
  "ex_update_A1 \<in> set (inventoryUpdates_of ex_flush_state)
   \<and> ws_out (logScannedTags ex_flush_state)
       = [(0, UpdatesMsg [ex_update_A1]), (2, UpdatesMsg [ex_update_A1])]
   \<and> scannedTagsRefresh (logScannedTags ex_flush_state) = []
   \<and> map fst (scannedTagsCumulative (logScannedTags ex_flush_state)) = [''A1'', ''ZZ'']
   \<and> inventoryMode ex_inventory_state
   \<and> \<not> Map_has (inventoryData ex_inventory_state) ''ZZ''
   \<and> tag_observation ex_clock ex_inventory_state ''ZZ'' = ex_inventory_state"
proof -
  have u: "inventoryUpdates_of ex_flush_state = [ex_update_A1]" by code_simp
  have o: "open_clients ex_flush_state = [\<lparr>cid = 0, readyState = 1\<rparr>, \<lparr>cid = 2, readyState = 1\<rparr>]"
    by code_simp
  have c: "map fst (scannedTagsCumulative ex_flush_state) = [''A1'', ''ZZ'']"
    "ws_out ex_flush_state = []" by code_simp+
  have i: "inventoryMode ex_inventory_state" "\<not> Map_has (inventoryData ex_inventory_state) ''ZZ''"
    by code_simp+
  from C7_flush [of ex_flush_state "''ZZ''" ex_clock]
       C7_flush [of ex_inventory_state "''ZZ''" ex_clock] u o c i
  show ?thesis by simp
qed

text \<open>
  Claim C7 as stated fails: with the inventory filter off, an identifier of the window
  table that the inventory does not have is in no record (it is not sent as unknown), and
  a client whose connection is not open receives nothing.
\<close>

theorem C7_flush_counterexample:
  "\<not> inventoryMode ex_flush_state
   \<and> map fst (scannedTagsRefresh ex_flush_state) = [''A1'', ''ZZ'']
   \<and> \<not> Map_has (inventoryData ex_flush_state) ''ZZ''
   \<and> map cid (wsClients ex_flush_state) = [0, 1, 2]
   \<and> ws_out (logScannedTags ex_flush_state)
       = [(0, UpdatesMsg [ex_update_A1]), (2, UpdatesMsg [ex_update_A1])]"
  by code_simp


section \<open>Short payloads\<close>

lemma epcHex_of_short: "length p \<le> 7 \<Longrightarrow> epcHex_of p = []"
  by (simp add: epcHex_of_def Let_def epc_slice toString_hex_def toUpperCase_def)

lemma Map_get_set: "Map_get (Map_set m k v) k = Some v"
  by (simp add: Map_get_def Map_set_def update_conv')

lemma count_in_bump: "count_in (bump_entry table k t) k = count_in table k + 1"
  by (simp add: count_in_def bump_entry_def Let_def Map_get_set split: option.split)

lemma tag_observation_counts:
  assumes "\<not> inventoryMode st \<or> Map_has (inventoryData st) e"
  shows "count_in (scannedTagsCumulative (tag_observation now st e)) e
           = count_in (scannedTagsCumulative st) e + 1"
    and "count_in (scannedTagsRefresh (tag_observation now st e)) e
           = count_in (scannedTagsRefresh st) e + 1"
  using assms by (auto simp add: tag_observation_def Let_def count_in_bump)


lemma short_payload_read_tag:
  assumes f: "tag_read_frame f" and e: "epcHex_of (payload_of f) = []"
    and sc: "isScanning st" and m: "mode st = MODE_READ_TAG"
  shows "fst (parseResponse now dbg st f) = read_tag_observation st []"
  using parseResponse_tag_read [OF f sc, of now dbg] e m by simp

lemma short_payload_other_modes:
  assumes f: "tag_read_frame f" and e: "epcHex_of (payload_of f) = []"
    and sc: "isScanning st" and m: "mode st \<noteq> MODE_READ_TAG"
  shows "fst (parseResponse now dbg st f) = tag_observation now st []"
  using parseResponse_tag_read [OF f sc, of now dbg] e m by simp


text \<open>
  Claim C9, as the code has it. An accepted tag-read frame whose payload has fewer than
  seven bytes gives the empty identifier and raises nothing. The empty identifier is
  then handled like any other: in read-tag mode it is counted and the most frequent
  identifier is sent; with the inventory filter off, its cumulative and window counters
  go up by one; with the filter on it is dropped when the inventory has no entry for it.
\<close>

theorem C9_short_payload:
  "tag_read_frame f \<and> length (payload_of f) < 7 \<longrightarrow>
     epcHex_of (payload_of f) = []
   \<and> snd (parseResponse now dbg st f) = None
   \<and> (isScanning st \<and> mode st = MODE_READ_TAG \<longrightarrow>
        Map_get (readTagScans (fst (parseResponse now dbg st f))) []
          = Some ((case Map_get (readTagScans st) [] of Some n \<Rightarrow> n | None \<Rightarrow> 0) + 1)
        \<and> ws_out (fst (parseResponse now dbg st f))
          = ws_out st @ map (\<lambda>c. (cid c, EpcMsg (fst (mostFrequent
                (readTagScans (fst (parseResponse now dbg st f))))))) (open_clients st))
   \<and> (isScanning st \<and> mode st \<noteq> MODE_READ_TAG \<and> \<not> inventoryMode st \<longrightarrow>
        count_in (scannedTagsCumulative (fst (parseResponse now dbg st f))) []
          = count_in (scannedTagsCumulative st) [] + 1
        \<and> count_in (scannedTagsRefresh (fst (parseResponse now dbg st f))) []
          = count_in (scannedTagsRefresh st) [] + 1)
   \<and> (isScanning st \<and> mode st \<noteq> MODE_READ_TAG \<and> inventoryMode st
        \<and> \<not> Map_has (inventoryData st) [] \<longrightarrow>
        fst (parseResponse now dbg st f) = st)"
proof (intro impI)
  assume a: "tag_read_frame f \<and> length (payload_of f) < 7"
  then have f: "tag_read_frame f" and e: "epcHex_of (payload_of f) = []"
    by (simp_all add: epcHex_of_short)
  note r = short_payload_read_tag [OF f e] and t = short_payload_other_modes [OF f e]
  from f have "5 \<le> length f" by (simp add: tag_read_frame_def well_formed_def)
  then have n: "snd (parseResponse now dbg st f) = None" by (rule parseResponse_no_exn)
  have c1: "isScanning st \<and> mode st = MODE_READ_TAG \<longrightarrow>
        Map_get (readTagScans (fst (parseResponse now dbg st f))) []
          = Some ((case Map_get (readTagScans st) [] of Some n \<Rightarrow> n | None \<Rightarrow> 0) + 1)
        \<and> ws_out (fst (parseResponse now dbg st f))
          = ws_out st @ map (\<lambda>c. (cid c, EpcMsg (fst (mostFrequent
                (readTagScans (fst (parseResponse now dbg st f))))))) (open_clients st)"
    by (simp add: r read_tag_observation_eq Map_get_set)
  have c2: "isScanning st \<and> mode st \<noteq> MODE_READ_TAG \<and> \<not> inventoryMode st \<longrightarrow>
        count_in (scannedTagsCumulative (fst (parseResponse now dbg st f))) []
          = count_in (scannedTagsCumulative st) [] + 1
        \<and> count_in (scannedTagsRefresh (fst (parseResponse now dbg st f))) []
          = count_in (scannedTagsRefresh st) [] + 1"
    by (simp add: t tag_observation_counts)
  have c3: "isScanning st \<and> mode st \<noteq> MODE_READ_TAG \<and> inventoryMode st
        \<and> \<not> Map_has (inventoryData st) [] \<longrightarrow>
        fst (parseResponse now dbg st f) = st"
    by (simp add: t tag_observation_def)
  from e n c1 c2 c3 show "epcHex_of (payload_of f) = []
   \<and> snd (parseResponse now dbg st f) = None
   \<and> (isScanning st \<and> mode st = MODE_READ_TAG \<longrightarrow>
        Map_get (readTagScans (fst (parseResponse now dbg st f))) []
          = Some ((case Map_get (readTagScans st) [] of Some n \<Rightarrow> n | None \<Rightarrow> 0) + 1)
        \<and> ws_out (fst (parseResponse now dbg st f))
          = ws_out st @ map (\<lambda>c. (cid c, EpcMsg (fst (mostFrequent
                (readTagScans (fst (parseResponse now dbg st f))))))) (open_clients st))
   \<and> (isScanning st \<and> mode st \<noteq> MODE_READ_TAG \<and> \<not> inventoryMode st \<longrightarrow>
        count_in (scannedTagsCumulative (fst (parseResponse now dbg st f))) []
          = count_in (scannedTagsCumulative st) [] + 1
        \<and> count_in (scannedTagsRefresh (fst (parseResponse now dbg st f))) []
          = count_in (scannedTagsRefresh st) [] + 1)
   \<and> (isScanning st \<and> mode st \<noteq> MODE_READ_TAG \<and> inventoryMode st
        \<and> \<not> Map_has (inventoryData st) [] \<longrightarrow>
        fst (parseResponse now dbg st f) = st)"
    by (intro conjI)
qed

theorem C9_short_payload_witness:
  "tag_read_frame ex_short_tag \<and> length (payload_of ex_short_tag) < 7
   \<and> epcHex_of (payload_of ex_short_tag) = []
   \<and> Map_get (readTagScans (fst (parseResponse ex_clock True ex_read_tag_state ex_short_tag))) []
       = Some 1
   \<and> count_in (scannedTagsCumulative (fst (parseResponse ex_clock True ex_scanning_state ex_short_tag))) []
       = 1
   \<and> fst (parseResponse ex_clock True ex_inventory_state ex_short_tag) = ex_inventory_state"
proof -
  have f: "tag_read_frame ex_short_tag" "length (payload_of ex_short_tag) < 7"
    by code_simp+
  have r: "isScanning ex_read_tag_state" "mode ex_read_tag_state = MODE_READ_TAG"
    "Map_get (readTagScans ex_read_tag_state) [] = None"
    by code_simp+
  have a: "isScanning ex_scanning_state" "mode ex_scanning_state \<noteq> MODE_READ_TAG"
    "\<not> inventoryMode ex_scanning_state" "count_in (scannedTagsCumulative ex_scanning_state) [] = 0"
    by code_simp+
  have i: "isScanning ex_inventory_state" "mode ex_inventory_state \<noteq> MODE_READ_TAG"
    "inventoryMode ex_inventory_state" "\<not> Map_has (inventoryData ex_inventory_state) []"
    by code_simp+
  from C9_short_payload [of ex_short_tag ex_clock True ex_read_tag_state]
       C9_short_payload [of ex_short_tag ex_clock True ex_scanning_state]
       C9_short_payload [of ex_short_tag ex_clock True ex_inventory_state]
       f r a i
  show ?thesis by simp
qed


text \<open>
  Claim C9 as stated fails: a frame with a payload of three bytes makes the empty
  identifier an entry of both counter tables in auto mode, and in read-tag mode it is
  counted and sent to the client.
\<close>

theorem C9_empty_identifier_counterexample:
  "tag_read_frame ex_short_tag \<and> length (payload_of ex_short_tag) = 3
   \<and> scannedTagsCumulative (fst (parseResponse ex_clock True ex_scanning_state ex_short_tag))
       = [([], \<lparr>count = 1, timestamp = ex_clock 0\<rparr>)]
   \<and> scannedTagsRefresh (fst (parseResponse ex_clock True ex_scanning_state ex_short_tag))
       = [([], \<lparr>count = 1, timestamp = ex_clock 1\<rparr>)]
   \<and> readTagScans (fst (parseResponse ex_clock True ex_read_tag_state ex_short_tag)) = [([], 1)]
   \<and> ws_out (fst (parseResponse ex_clock True ex_read_tag_state ex_short_tag)) = [(0, EpcMsg [])]"
  by code_simp



section \<open>The checksum of incoming frames\<close>

lemma same_prefix_nth:
  assumes "length f = length g" and "take (length f - 2) f = take (length g - 2) g"
    and "i < length f - 2"
  shows "f ! i = g ! i"
proof -
  have "f ! i = take (length f - 2) f ! i" using assms(3) by simp
  also have "\<dots> = take (length g - 2) g ! i" using assms(2) by simp
  also have "\<dots> = g ! i" using assms(1,3) by simp
  finally show ?thesis .
qed

lemma same_prefix_payload:
  assumes wf: "well_formed f" and wg: "well_formed g" and l: "length f = length g"
    and t: "take (length f - 2) f = take (length g - 2) g"
  shows "payload_of f = payload_of g"
proof -
  from wf have lf: "length f = 7 + unat (f ! 1)" by (simp add: well_formed_def)
  from wg have lg: "length g = 7 + unat (g ! 1)" by (simp add: well_formed_def)
  from lf lg l have n: "unat (g ! 1) = unat (f ! 1)" by simp
  have "payload_of f = drop 5 (take (length f - 2) f)"
    unfolding payload_of_def lf by (simp add: drop_take)
  also have "\<dots> = drop 5 (take (length g - 2) g)" using t by simp
  also have "\<dots> = payload_of g"
    unfolding payload_of_def lg by (simp add: drop_take)
  finally show ?thesis .
qed

text \<open>
  Claim C10. \<open>parseResponse\<close> does not check the CRC of a frame: two frames as the
  reassembler hands them over, of the same length and equal up to their last two bytes,
  give the same state, the same port writes, the same messages and the same outcome,
  unless exactly one of them is, byte for byte, the application-start acknowledgment.
\<close>

theorem C10_crc_not_validated:
  assumes wf: "well_formed f" and wg: "well_formed g" and l: "length f = length g"
    and t: "take (length f - 2) f = take (length g - 2) g"
    and a: "(toString_hex f = HEX_APP_START_ACK) = (toString_hex g = HEX_APP_START_ACK)"
  shows "parseResponse now dbg st f = parseResponse now dbg st g"
proof -
  from wf have "7 \<le> length f" by (simp add: well_formed_def)
  then have i: "2 < length f - 2" "3 < length f - 2" "4 < length f - 2" by simp_all
  note n = same_prefix_nth [OF l t]
  have e: "f ! 2 = g ! 2" "f ! 3 = g ! 3" "f ! 4 = g ! 4"
    using n [OF i(1)] n [OF i(2)] n [OF i(3)] by simp_all
  have p: "payload_of f = payload_of g" by (rule same_prefix_payload [OF wf wg l t])
  show ?thesis
    unfolding parseResponse_frame [OF wf] parseResponse_frame [OF wg] e p a ..
qed

lemma ex_C10:
  "well_formed ex_tag_A" "well_formed ex_tag_A_other_crc"
  "length ex_tag_A = length ex_tag_A_other_crc"
  "take (length ex_tag_A - 2) ex_tag_A = take (length ex_tag_A_other_crc - 2) ex_tag_A_other_crc"
  "toString_hex ex_tag_A \<noteq> HEX_APP_START_ACK"
  "toString_hex ex_tag_A_other_crc \<noteq> HEX_APP_START_ACK"
  "ex_tag_A \<noteq> ex_tag_A_other_crc"
  by code_simp+

theorem C10_crc_not_validated_witness:
  "well_formed ex_tag_A \<and> well_formed ex_tag_A_other_crc
   \<and> length ex_tag_A = length ex_tag_A_other_crc
   \<and> take (length ex_tag_A - 2) ex_tag_A = take (length ex_tag_A_other_crc - 2) ex_tag_A_other_crc
   \<and> ex_tag_A \<noteq> ex_tag_A_other_crc
   \<and> parseResponse ex_clock True ex_scanning_state ex_tag_A
       = parseResponse ex_clock True ex_scanning_state ex_tag_A_other_crc"
  using C10_crc_not_validated [of ex_tag_A ex_tag_A_other_crc ex_clock True ex_scanning_state]
    ex_C10 by simp

text \<open>The exception is real: the acknowledgment with other CRC bytes is not recognised.\<close>

lemma ack_crc_significant:
  "well_formed ex_ack \<and> well_formed ex_ack_other_crc
   \<and> take (length ex_ack - 2) ex_ack = take (length ex_ack_other_crc - 2) ex_ack_other_crc
   \<and> autoModeState (fst (parseResponse ex_clock True (initial_state MODE_AUTO) ex_ack)) = 2
   \<and> autoModeState (fst (parseResponse ex_clock True (initial_state MODE_AUTO) ex_ack_other_crc)) = 0"
  by code_simp


section \<open>Inventory reload\<close>

lemma indexOf_from_absent: "0 \<le> i \<Longrightarrow> (indexOf_from i xs x = -1) = (x \<notin> set xs)"
proof (induction xs arbitrary: i)
  case Nil
  then show ?case by simp
next
  case (Cons y ys)
  from Cons.IH [of "i + 1"] Cons.prems show ?case by auto
qed

lemma indexOf_absent: "(indexOf xs x = -1) = (x \<notin> set xs)"
  by (simp add: indexOf_def indexOf_from_absent)

text \<open>
  Claim C8, as the code has it. \<open>parseInventoryData\<close> clears the inventory before it looks
  at the text. When the text has no non-blank line, or when its header row has no
  \<open>EPC\<close> column, nothing is loaded and nothing is raised: the inventory is left empty
  and the rest of the state is unchanged.
\<close>

theorem C8_reload_without_epc_column:
  "(csv_lines csvData = [] \<longrightarrow> parseInventoryData st csvData = (st\<lparr>inventoryData := []\<rparr>, None))
   \<and> (csv_lines csvData \<noteq> [] \<and> ''EPC'' \<notin> set (csv_headers csvData) \<longrightarrow>
        parseInventoryData st csvData = (st\<lparr>inventoryData := []\<rparr>, None))"
  by (simp add: parseInventoryData_def csv_lines_def csv_headers_def Let_def indexOf_absent)

theorem C8_reload_without_epc_column_witness:
  "csv_lines [] = []
   \<and> csv_lines ex_csv_no_epc = [''id,item'', ''1,hammer'']
   \<and> csv_headers ex_csv_no_epc = [''id'', ''item'']
   \<and> parseInventoryData ex_inventory_state [] = (ex_inventory_state\<lparr>inventoryData := []\<rparr>, None)
   \<and> parseInventoryData ex_inventory_state ex_csv_no_epc
       = (ex_inventory_state\<lparr>inventoryData := []\<rparr>, None)"
proof -
  have l: "csv_lines [] = []" "csv_lines ex_csv_no_epc = [''id,item'', ''1,hammer'']"
    "csv_headers ex_csv_no_epc = [''id'', ''item'']"
    by code_simp+
  from C8_reload_without_epc_column [of "[]" ex_inventory_state]
       C8_reload_without_epc_column [of ex_csv_no_epc ex_inventory_state] l
  show ?thesis by simp
qed

text \<open>
  Claim C8 as stated fails: a reload whose header row has no \<open>EPC\<close> column turns an
  inventory of one entry into the empty inventory.
\<close>

theorem C8_reload_counterexample:
  "csv_headers ex_csv_no_epc = [''id'', ''item'']
   \<and> inventoryData ex_inventory_state
       = [(''A1'', \<lparr>item_id = Num 7, item_epc = ''A1'', item_name = ''hammer''\<rparr>)]
   \<and> inventoryData (fst (parseInventoryData ex_inventory_state ex_csv_no_epc)) = []
   \<and> snd (parseInventoryData ex_inventory_state ex_csv_no_epc) = None"
  by code_simp

text \<open>A reload with the column replaces the inventory by the rows of the text.\<close>

lemma ex_reload_accepted:
  "inventoryData (fst (parseInventoryData ex_inventory_state ex_csv))
     = [(''B2'', \<lparr>item_id = Num 3, item_epc = ''B2'', item_name = ''saw''\<rparr>)]"
  by code_simp


end
